theory Spec2Isabelle
  imports Main "HOL-Library.Countable"
begin

section \<open>Byte strings and text\<close>

text \<open>
  Python \<^verbatim>\<open>bytes\<close> values are lists of 8-bit characters; Python \<^verbatim>\<open>str\<close> values are
  lists of code points.
\<close>

type_synonym bytes = string
type_synonym str = "nat list"

text \<open>\<^verbatim>\<open>bytes.lower()\<close>: only the ASCII letters A-Z are mapped.\<close>

definition lower_byte :: "char \<Rightarrow> char" where
  "lower_byte c =
     (case map_of (zip ''ABCDEFGHIJKLMNOPQRSTUVWXYZ'' ''abcdefghijklmnopqrstuvwxyz'') c of
        Some d \<Rightarrow> d
      | None \<Rightarrow> c)"

definition lower :: "bytes \<Rightarrow> bytes" where
  "lower s = map lower_byte s"

text \<open>\<^verbatim>\<open>s.strip(chars)\<close>: drop the leading and the trailing bytes that are in \<open>chars\<close>.\<close>

definition strip_bytes :: "bytes \<Rightarrow> bytes \<Rightarrow> bytes" where
  "strip_bytes chars s =
     rev (dropWhile (\<lambda>c. c \<in> set chars) (rev (dropWhile (\<lambda>c. c \<in> set chars) s)))"

text \<open>\<^verbatim>\<open>bytes.strip()\<close> with no argument strips ASCII whitespace:
  space, tab, line feed, carriage return, vertical tab, form feed.\<close>

definition whitespace :: bytes where
  "whitespace = [CHR 0x20, CHR 0x09, CHR 0x0A, CHR 0x0D, CHR 0x0B, CHR 0x0C]"

definition crlf :: bytes where
  "crlf = [CHR 0x0D, CHR 0x0A]"

text \<open>\<^verbatim>\<open>s.translate(None, delete)\<close>: remove every byte that occurs in \<open>delete\<close>.\<close>

definition translate_delete :: "bytes \<Rightarrow> bytes \<Rightarrow> bytes" where
  "translate_delete del s = filter (\<lambda>c. c \<notin> set del) s"

text \<open>\<^verbatim>\<open>s.split(sep)\<close> for a one-element separator: the pieces between the
  separators, at least one piece.\<close>

fun split_on :: "'a \<Rightarrow> 'a list \<Rightarrow> 'a list list" where
  "split_on sep [] = [[]]"
| "split_on sep (x # xs) =
     (if x = sep then [] # split_on sep xs
      else (x # hd (split_on sep xs)) # tl (split_on sep xs))"

text \<open>\<^verbatim>\<open>sep.join(parts)\<close>.\<close>

fun join :: "'a list \<Rightarrow> 'a list list \<Rightarrow> 'a list" where
  "join sep [] = []"
| "join sep [p] = p"
| "join sep (p # q # ps) = p @ sep @ join sep (q # ps)"

section \<open>Regular expressions of the \<^verbatim>\<open>re\<close> module\<close>

text \<open>
  The patterns of \<^verbatim>\<open>validation.py\<close> use character classes, concatenation and bounded
  or unbounded repetition only. They are kept as data and matched by derivatives.
\<close>

datatype rexp =
    Nothing
  | Empty
  | Byte "char \<Rightarrow> bool"
  | Alt rexp rexp
  | Seq rexp rexp
  | Star rexp

fun nullable :: "rexp \<Rightarrow> bool" where
  "nullable Nothing = False"
| "nullable Empty = True"
| "nullable (Byte p) = False"
| "nullable (Alt r s) = (nullable r \<or> nullable s)"
| "nullable (Seq r s) = (nullable r \<and> nullable s)"
| "nullable (Star r) = True"

fun deriv :: "char \<Rightarrow> rexp \<Rightarrow> rexp" where
  "deriv c Nothing = Nothing"
| "deriv c Empty = Nothing"
| "deriv c (Byte p) = (if p c then Empty else Nothing)"
| "deriv c (Alt r s) = Alt (deriv c r) (deriv c s)"
| "deriv c (Seq r s) =
     (if nullable r then Alt (Seq (deriv c r) s) (deriv c s) else Seq (deriv c r) s)"
| "deriv c (Star r) = Seq (deriv c r) (Star r)"

text \<open>The whole of \<open>s\<close> matches \<open>r\<close>.\<close>

fun full_match :: "rexp \<Rightarrow> bytes \<Rightarrow> bool" where
  "full_match r [] = nullable r"
| "full_match r (c # cs) = full_match (deriv c r) cs"

text \<open>\<^verbatim>\<open>pattern.match(s)\<close> for a pattern with no anchors: some prefix of \<open>s\<close>
  matches \<open>r\<close>.\<close>

fun prefix_match :: "rexp \<Rightarrow> bytes \<Rightarrow> bool" where
  "prefix_match r [] = nullable r"
| "prefix_match r (c # cs) = (if nullable r then True else prefix_match (deriv c r) cs)"

text \<open>\<^verbatim>\<open>pattern.match(s)\<close> for a pattern \<^verbatim>\<open>^...$\<close>: without the MULTILINE flag,
  \<^verbatim>\<open>$\<close> matches at the end of \<open>s\<close> and also just before a line feed that is the
  last byte of \<open>s\<close>.\<close>

definition anchored_match :: "rexp \<Rightarrow> bytes \<Rightarrow> bool" where
  "anchored_match r s =
     (full_match r s \<or> (s \<noteq> [] \<and> last s = CHR 0x0A \<and> full_match r (butlast s)))"

text \<open>Repetition: \<^verbatim>\<open>r{n}\<close>, \<^verbatim>\<open>r{0,n}\<close>, \<^verbatim>\<open>r{n,}\<close> and \<^verbatim>\<open>r{m,n}\<close>; \<^verbatim>\<open>r+\<close> is
  \<^verbatim>\<open>r{1,}\<close>.\<close>

fun times :: "nat \<Rightarrow> rexp \<Rightarrow> rexp" where
  "times 0 r = Empty"
| "times (Suc n) r = Seq r (times n r)"

fun up_to :: "nat \<Rightarrow> rexp \<Rightarrow> rexp" where
  "up_to 0 r = Empty"
| "up_to (Suc n) r = Alt Empty (Seq r (up_to n r))"

definition at_least :: "nat \<Rightarrow> rexp \<Rightarrow> rexp" where
  "at_least n r = Seq (times n r) (Star r)"

definition between :: "nat \<Rightarrow> nat \<Rightarrow> rexp \<Rightarrow> rexp" where
  "between m n r = Seq (times m r) (up_to (n - m) r)"

text \<open>A character class under \<^verbatim>\<open>re.I\<close> on a bytes pattern: the byte and the members
  of the class are compared in ASCII lower case.\<close>

definition cls :: "bytes \<Rightarrow> char \<Rightarrow> bool" where
  "cls chars c = (c \<in> set chars)"

definition cls_ignorecase :: "bytes \<Rightarrow> char \<Rightarrow> bool" where
  "cls_ignorecase chars c = (lower_byte c \<in> set (lower chars))"

text \<open>\<^verbatim>\<open>.\<close> without the DOTALL flag: any byte but the line feed.\<close>

definition dot :: "char \<Rightarrow> bool" where
  "dot c = (c \<noteq> CHR 0x0A)"

section \<open>\<^verbatim>\<open>lib/validation.py\<close>\<close>

text \<open>\<^verbatim>\<open>email_regex_bytes = re.compile(rb'^([A-Z0-9_\-\.\+]+)@([A-Z0-9_\-\.]+)\.([A-Z]{2,8})$', re.I)\<close>\<close>

definition email_regex_bytes :: rexp where
  "email_regex_bytes =
     Seq (at_least 1 (Byte (cls_ignorecase ''ABCDEFGHIJKLMNOPQRSTUVWXYZ0123456789_-.+'')))
    (Seq (Byte (cls ''@''))
    (Seq (at_least 1 (Byte (cls_ignorecase ''ABCDEFGHIJKLMNOPQRSTUVWXYZ0123456789_-.'')))
    (Seq (Byte (cls ''.''))
         (between 2 8 (Byte (cls_ignorecase ''ABCDEFGHIJKLMNOPQRSTUVWXYZ''))))))"

text \<open>\<^verbatim>\<open>hash_regex = re.compile(rb'[a-f0-9]{20,}', re.I)\<close>\<close>

definition hash_regex :: rexp where
  "hash_regex = at_least 20 (Byte (cls_ignorecase ''abcdef0123456789''))"

text \<open>\<^verbatim>\<open>extended_hash_regex = re.compile(rb'\$.{1,13}\$[a-z0-9:/\.]{20,}', re.I)\<close>\<close>

definition extended_hash_regex :: rexp where
  "extended_hash_regex =
     Seq (Byte (cls ''$''))
    (Seq (between 1 13 (Byte dot))
    (Seq (Byte (cls ''$''))
         (at_least 20 (Byte (cls_ignorecase ''abcdefghijklmnopqrstuvwxyz0123456789:/.'')))))"

text \<open>
  \<^verbatim>\<open>is_email\<close>: the arguments of this program are bytes, so the \<^verbatim>\<open>str\<close> pattern raises
  \<^verbatim>\<open>TypeError\<close> and the bytes pattern decides.
\<close>

definition is_email :: "bytes \<Rightarrow> bool" where
  "is_email e = (if length e > 128 then False else anchored_match email_regex_bytes e)"

section \<open>External collaborators\<close>

text \<open>
  This program calls functions that are not part of \<^verbatim>\<open>account.py\<close> and
  \<^verbatim>\<open>validation.py\<close>; they are parameters of the model.
  \<^item> \<open>decode\<close>, \<open>encode\<close>, \<open>clean_encoding\<close>: the codec of \<^verbatim>\<open>lib/util.py\<close>, of which
    only the signatures are known: total functions between bytes and text.
  \<^item> \<open>b64decode\<close>: \<^verbatim>\<open>base64.b64decode\<close>; \<open>None\<close> stands for \<^verbatim>\<open>binascii.Error\<close>.
  \<^item> \<open>b64encode\<close>: \<^verbatim>\<open>base64.b64encode\<close>.
  \<^item> \<open>sha256\<close>: \<^verbatim>\<open>hashlib.sha256(b).digest()\<close>.
  \<^item> \<open>str_encode\<close>: \<^verbatim>\<open>s.encode(encoding='utf-8')\<close>; \<open>None\<close> stands for
    \<^verbatim>\<open>UnicodeEncodeError\<close>.
  \<^item> \<open>builtin_hash\<close>: the built-in \<^verbatim>\<open>hash\<close> on bytes.
\<close>

record externals =
  decode :: "bytes \<Rightarrow> str"
  encode :: "str \<Rightarrow> bytes"
  clean_encoding :: "bytes \<Rightarrow> bytes"
  b64decode :: "bytes \<Rightarrow> bytes option"
  b64encode :: "bytes \<Rightarrow> bytes"
  sha256 :: "bytes \<Rightarrow> bytes"
  str_encode :: "str \<Rightarrow> bytes option"
  builtin_hash :: "bytes \<Rightarrow> int"

text \<open>\<^verbatim>\<open>is_hash\<close>, with \<^verbatim>\<open>s.endswith(b'=')\<close> written out.\<close>

definition is_hash :: "externals \<Rightarrow> bytes \<Rightarrow> bool" where
  "is_hash X s =
     (if length s > 10 \<and> s \<noteq> [] \<and> last s = CHR ''=''
      then (case b64decode X s of Some decoded \<Rightarrow> True | None \<Rightarrow> False)
      else if prefix_match hash_regex s then True
      else if length s \<ge> 23 \<and> prefix_match extended_hash_regex s then True
      else False)"

section \<open>\<^verbatim>\<open>lib/account.py\<close>\<close>

datatype error = AccountCreationError | UnboundLocalError

record account =
  email :: bytes
  username :: bytes
  password :: bytes
  hash :: bytes
  misc :: bytes

definition valid_email_chars :: bytes where
  "valid_email_chars = ''abcdefghijklmnopqrstuvwxyz0123456789-_.+@''"

definition max_length_1 :: nat where
  "max_length_1 = 128"

definition max_length_2 :: nat where
  "max_length_2 = 1000"

subsection \<open>\<^verbatim>\<open>Account.__init__\<close>\<close>

text \<open>Lines 65-71: strip, lower-case, keep the bytes of \<open>valid_email_chars\<close>.\<close>

definition filter_email :: "bytes \<Rightarrow> bytes" where
  "filter_email e =
     filter (\<lambda>c. c \<in> set valid_email_chars) (lower (strip_bytes whitespace e))"

text \<open>Lines 65-77: the five fields after the cleanup.\<close>

definition cleanup :: "bytes \<Rightarrow> bytes \<Rightarrow> bytes \<Rightarrow> bytes \<Rightarrow> bytes \<Rightarrow> account" where
  "cleanup e u p h m =
     \<lparr>email = filter_email e,
      username = translate_delete [CHR 0x27, CHR 0x5C] (strip_bytes whitespace u),
      password = strip_bytes crlf p,
      hash = strip_bytes crlf h,
      misc = strip_bytes crlf m\<rparr>"

text \<open>Lines 79-90: a username that is an email address becomes the email; an
  invalid email raises in strict mode and otherwise becomes the username when there
  is none.\<close>

definition resolve_email :: "bool \<Rightarrow> account \<Rightarrow> error + account" where
  "resolve_email strict a =
     (if email a = [] then
        (if is_email (username a)
         then Inr (a\<lparr>email := lower (username a), username := []\<rparr>)
         else Inr a)
      else if \<not> is_email (email a) then
        (if strict then Inl AccountCreationError
         else if username a = [] then Inr (a\<lparr>email := [], username := email a\<rparr>)
         else Inr a)
      else Inr a)"

text \<open>Lines 92-95; \<open>raw_hash\<close> is the argument \<^verbatim>\<open>_hash\<close> of the constructor.\<close>

definition reclassify_hash :: "externals \<Rightarrow> bytes \<Rightarrow> account \<Rightarrow> account" where
  "reclassify_hash X raw_hash a =
     (if raw_hash = [] \<and> password a \<noteq> [] then
        (if is_hash X (password a) then a\<lparr>password := [], hash := password a\<rparr> else a)
      else a)"

text \<open>Lines 97-99.\<close>

definition reclassify_misc :: "account \<Rightarrow> account" where
  "reclassify_misc a =
     (if misc a = [] \<and> length (password a) \<ge> 100
      then a\<lparr>password := [], misc := password a\<rparr>
      else a)"

text \<open>Line 104: the condition under which the constructor does not raise.\<close>

definition gate :: "account \<Rightarrow> bool" where
  "gate a =
     (email a \<noteq> [] \<or> (username a \<noteq> [] \<and> (password a \<noteq> [] \<or> misc a \<noteq> [] \<or> hash a \<noteq> [])))"

text \<open>\<^verbatim>\<open>s[-n:]\<close> for \<open>n > 0\<close>: the last \<open>n\<close> bytes.\<close>

definition last_n :: "nat \<Rightarrow> bytes \<Rightarrow> bytes" where
  "last_n n s = drop (length s - n) s"

text \<open>Lines 108-113.\<close>

definition truncate_fields :: "externals \<Rightarrow> account \<Rightarrow> account" where
  "truncate_fields X a =
     \<lparr>email = last_n max_length_1 (clean_encoding X (email a)),
      username = take max_length_1 (clean_encoding X (username a)),
      password = take max_length_1 (clean_encoding X (password a)),
      hash = take max_length_2 (clean_encoding X (hash a)),
      misc = take max_length_2 (clean_encoding X (misc a))\<rparr>"

text \<open>The fields as they are when line 104 tests them; \<open>Inl\<close> when line 88 raised.\<close>

definition reclassified ::
  "externals \<Rightarrow> bytes \<Rightarrow> bytes \<Rightarrow> bytes \<Rightarrow> bytes \<Rightarrow> bytes \<Rightarrow> bool \<Rightarrow> error + account" where
  "reclassified X e u p h m strict =
     (case resolve_email strict (cleanup e u p h m) of
        Inl err \<Rightarrow> Inl err
      | Inr a \<Rightarrow> Inr (reclassify_misc (reclassify_hash X h a)))"

text \<open>The constructor: \<open>Inl\<close> is the exception raised, \<open>Inr\<close> the object built.\<close>

definition Account ::
  "externals \<Rightarrow> bytes \<Rightarrow> bytes \<Rightarrow> bytes \<Rightarrow> bytes \<Rightarrow> bytes \<Rightarrow> bool \<Rightarrow> error + account" where
  "Account X e u p h m strict =
     (case reclassified X e u p h m strict of
        Inl err \<Rightarrow> Inl err
      | Inr a \<Rightarrow> if gate a then Inr (truncate_fields X a) else Inl AccountCreationError)"

subsection \<open>Identifier, document, equality\<close>

text \<open>\<^verbatim>\<open>split_email\<close>: the first two pieces of \<^verbatim>\<open>email.split(b'@')\<close>; when there is
  only one piece the unpacking raises \<^verbatim>\<open>ValueError\<close> and the handler returns the
  email and the empty domain.\<close>

definition split_email :: "account \<Rightarrow> bytes \<times> bytes" where
  "split_email r =
     (case take 2 (split_on CHR ''@'' (email r)) of
        [e, d] \<Rightarrow> (e, d)
      | _ \<Rightarrow> (email r, []))"

text \<open>\<^verbatim>\<open>bytes\<close>: the five fields joined by the NUL byte.\<close>

definition account_bytes :: "account \<Rightarrow> bytes" where
  "account_bytes r = join [CHR 0x00] [email r, username r, password r, hash r, misc r]"

text \<open>\<^verbatim>\<open>to_object_id\<close>; 124 is the code point of \<^verbatim>\<open>|\<close>.\<close>

definition to_object_id :: "externals \<Rightarrow> account \<Rightarrow> str" where
  "to_object_id X r =
     (if email r \<noteq> [] then
        (let (e, d) = split_email r;
             domain_chunk = decode X (rev d);
             email_hash = decode X (b64encode X (take 6 (sha256 X e)));
             account_hash =
               email_hash @ decode X (b64encode X (take 6 (sha256 X (account_bytes r))))
         in join [124] [domain_chunk, account_hash])
      else
        (let account_hash = decode X (b64encode X (take 12 (sha256 X (account_bytes r))));
             domain_chunk = []
         in join [124] [domain_chunk, account_hash]))"

text \<open>\<^verbatim>\<open>document\<close> (with \<^verbatim>\<open>id_only\<close> at its default): a dictionary from keys to text.
  The codec being total, nothing here raises the \<^verbatim>\<open>ValueError\<close> that the source
  turns into \<^verbatim>\<open>AccountCreationError\<close>.\<close>

definition document :: "externals \<Rightarrow> account \<Rightarrow> (string \<rightharpoonup> str)" where
  "document X r =
     (let doc0 = [''_id'' \<mapsto> to_object_id X r];
          doc1 = (if email r \<noteq> [] then doc0(''e'' \<mapsto> decode X (fst (split_email r))) else doc0);
          doc2 = (if username r \<noteq> [] then doc1(''u'' \<mapsto> decode X (username r)) else doc1);
          doc3 = (if password r \<noteq> [] then doc2(''p'' \<mapsto> decode X (password r)) else doc2);
          doc4 = (if hash r \<noteq> [] then doc3(''h'' \<mapsto> decode X (hash r)) else doc3);
          doc5 = (if misc r \<noteq> [] then doc4(''m'' \<mapsto> decode X (misc r)) else doc4)
      in doc5)"

definition if_key_exists :: "externals \<Rightarrow> (string \<rightharpoonup> str) \<Rightarrow> string \<Rightarrow> bytes" where
  "if_key_exists X d k = (case d k of Some v \<Rightarrow> encode X v | None \<Rightarrow> [])"

text \<open>
  \<^verbatim>\<open>from_document\<close>: a missing key (\<^verbatim>\<open>KeyError\<close>) gives the empty email. The handler of
  \<^verbatim>\<open>UnicodeEncodeError\<close> reads the local names \<^verbatim>\<open>email\<close> and \<^verbatim>\<open>domain\<close>, which are
  not bound at that point, so it raises \<^verbatim>\<open>UnboundLocalError\<close>. The values of the
  document are text, so the handler of \<^verbatim>\<open>ValueError\<close> and \<^verbatim>\<open>TypeError\<close> is not
  entered; 64 is the code point of \<^verbatim>\<open>@\<close>. The constructor is called with
  \<^verbatim>\<open>strict\<close> at its default.
\<close>

definition from_document :: "externals \<Rightarrow> (string \<rightharpoonup> str) \<Rightarrow> error + account" where
  "from_document X doc =
     (case (case doc ''e'' of
              None \<Rightarrow> Inr []
            | Some e \<Rightarrow>
                (case doc ''_id'' of
                   None \<Rightarrow> Inr []
                 | Some i \<Rightarrow>
                     (case str_encode X (e @ [64] @ rev (hd (split_on 124 i))) of
                        Some b \<Rightarrow> Inr b
                      | None \<Rightarrow> Inl UnboundLocalError))) of
        Inl err \<Rightarrow> Inl err
      | Inr em \<Rightarrow>
          Account X em (if_key_exists X doc ''u'') (if_key_exists X doc ''p'')
            (if_key_exists X doc ''h'') (if_key_exists X doc ''m'') False)"

text \<open>\<^verbatim>\<open>__hash__\<close> and \<^verbatim>\<open>__eq__\<close>.\<close>

definition account_hash :: "externals \<Rightarrow> account \<Rightarrow> int" where
  "account_hash X r = builtin_hash X (account_bytes r)"

definition account_eq :: "externals \<Rightarrow> account \<Rightarrow> account \<Rightarrow> bool" where
  "account_eq X r1 r2 = (if account_hash X r1 = account_hash X r2 then True else False)"

section \<open>The language of a regular expression\<close>

text \<open>The set of byte strings a pattern denotes; the matcher is proved against it.\<close>

inductive_set star :: "bytes set \<Rightarrow> bytes set" for A :: "bytes set" where
  star_empty: "[] \<in> star A"
| star_more: "u \<in> A \<Longrightarrow> v \<in> star A \<Longrightarrow> u @ v \<in> star A"

fun lang :: "rexp \<Rightarrow> bytes set" where
  "lang Nothing = {}"
| "lang Empty = {[]}"
| "lang (Byte p) = {[c] | c. p c}"
| "lang (Alt r s) = lang r \<union> lang s"
| "lang (Seq r s) = {u @ v | u v. u \<in> lang r \<and> v \<in> lang s}"
| "lang (Star r) = star (lang r)"

text \<open>The three character classes of \<^verbatim>\<open>email_regex_bytes\<close>.\<close>

abbreviation local_class :: "char \<Rightarrow> bool" where
  "local_class \<equiv> cls_ignorecase ''ABCDEFGHIJKLMNOPQRSTUVWXYZ0123456789_-.+''"

abbreviation domain_class :: "char \<Rightarrow> bool" where
  "domain_class \<equiv> cls_ignorecase ''ABCDEFGHIJKLMNOPQRSTUVWXYZ0123456789_-.''"

abbreviation tld_class :: "char \<Rightarrow> bool" where
  "tld_class \<equiv> cls_ignorecase ''ABCDEFGHIJKLMNOPQRSTUVWXYZ''"

text \<open>The bytes that \<^verbatim>\<open>hash_regex\<close> and the last part of \<^verbatim>\<open>extended_hash_regex\<close>
  accept, written out in both cases.\<close>

definition is_hex_char :: "char \<Rightarrow> bool" where
  "is_hex_char c = (c \<in> set ''0123456789abcdefABCDEF'')"

definition is_scheme_char :: "char \<Rightarrow> bool" where
  "is_scheme_char c =
     (c \<in> set ''abcdefghijklmnopqrstuvwxyzABCDEFGHIJKLMNOPQRSTUVWXYZ0123456789:/.'')"

text \<open>Branch (b) of \<^verbatim>\<open>is_hash\<close> in the words of the specification: \<open>s\<close> contains
  at least 20 contiguous hexadecimal characters, anywhere.\<close>

fun contains_hex_run :: "bytes \<Rightarrow> bool" where
  "contains_hex_run [] = False"
| "contains_hex_run (c # cs) =
     (20 \<le> length (takeWhile is_hex_char (c # cs)) \<or> contains_hex_run cs)"

text \<open>The identifier in the words of the specification: the email is split at its
  first \<^verbatim>\<open>@\<close> into the local part and the domain (all of it local, and the domain
  empty, when it has no \<^verbatim>\<open>@\<close>); the digest input is the five fields joined by NUL.\<close>

definition spec_split_email :: "bytes \<Rightarrow> bytes \<times> bytes" where
  "spec_split_email e =
     (takeWhile (\<lambda>c. c \<noteq> CHR ''@'') e, drop 1 (dropWhile (\<lambda>c. c \<noteq> CHR ''@'') e))"

definition spec_object_id :: "externals \<Rightarrow> account \<Rightarrow> str" where
  "spec_object_id X r =
     (let full = email r @ [CHR 0x00] @ username r @ [CHR 0x00] @ password r @ [CHR 0x00]
                   @ hash r @ [CHR 0x00] @ misc r
      in if email r \<noteq> [] then
           (let (l, d) = spec_split_email (email r)
            in decode X (rev d) @ [124] @ decode X (b64encode X (take 6 (sha256 X l)))
                 @ decode X (b64encode X (take 6 (sha256 X full))))
         else [124] @ decode X (b64encode X (take 12 (sha256 X full))))"

text \<open>What is assumed of the codec and of \<^verbatim>\<open>str.encode\<close> where a claim needs it: on
  bytes below 128 they are UTF-8, which keeps each such byte as the code point of the
  same number, and the repair of a string of such bytes changes nothing.\<close>

definition ascii_codec :: "externals \<Rightarrow> bool" where
  "ascii_codec X =
     (\<forall>s. (\<forall>c\<in>set s. of_char c < (128::nat)) \<longrightarrow>
        decode X s = map of_char s \<and> clean_encoding X s = s \<and>
        str_encode X (map of_char s) = Some s)"

section \<open>The collaborators on ASCII data\<close>

text \<open>
  An instance of the collaborators for running the model on concrete inputs: on
  ASCII, decoding and encoding UTF-8 keeps every byte and a well-encoded byte string
  needs no repair. The digest and Base64 functions are left unspecified; the built-in
  hash is one that never collides.
\<close>

definition ascii_externals :: externals where
  "ascii_externals =
     \<lparr>decode = map of_char,
      encode = map char_of,
      clean_encoding = (\<lambda>b. b),
      b64decode = undefined,
      b64encode = undefined,
      sha256 = undefined,
      str_encode = (\<lambda>t. Some (map char_of t)),
      builtin_hash = (\<lambda>b. int (to_nat b))\<rparr>"


section \<open>The character classes, written out\<close>

lemma hex_class: "cls_ignorecase ''abcdef0123456789'' c = is_hex_char c"
proof -
  have l: "lower ''abcdef0123456789'' = ''abcdef0123456789''"
    by (simp add: lower_def lower_byte_def)
  show ?thesis
    unfolding cls_ignorecase_def l is_hex_char_def
    by (auto simp: lower_byte_def)
qed

lemma scheme_class:
  "cls_ignorecase ''abcdefghijklmnopqrstuvwxyz0123456789:/.'' c = is_scheme_char c"
proof -
  have l: "lower ''abcdefghijklmnopqrstuvwxyz0123456789:/.'' = ''abcdefghijklmnopqrstuvwxyz0123456789:/.''"
    by (simp add: lower_def lower_byte_def)
  show ?thesis
    unfolding cls_ignorecase_def l is_scheme_char_def
    by (auto simp: lower_byte_def)
qed

lemma local_class_iff:
  "local_class c =
     (c \<in> set ''abcdefghijklmnopqrstuvwxyzABCDEFGHIJKLMNOPQRSTUVWXYZ0123456789_-.+'')"
proof -
  have l: "lower ''ABCDEFGHIJKLMNOPQRSTUVWXYZ0123456789_-.+'' = ''abcdefghijklmnopqrstuvwxyz0123456789_-.+''"
    by (simp add: lower_def lower_byte_def)
  show ?thesis
    unfolding cls_ignorecase_def l
    by (auto simp: lower_byte_def)
qed

lemma domain_class_iff:
  "domain_class c =
     (c \<in> set ''abcdefghijklmnopqrstuvwxyzABCDEFGHIJKLMNOPQRSTUVWXYZ0123456789_-.'')"
proof -
  have l: "lower ''ABCDEFGHIJKLMNOPQRSTUVWXYZ0123456789_-.'' = ''abcdefghijklmnopqrstuvwxyz0123456789_-.''"
    by (simp add: lower_def lower_byte_def)
  show ?thesis
    unfolding cls_ignorecase_def l
    by (auto simp: lower_byte_def)
qed

lemma tld_class_iff:
  "tld_class c = (c \<in> set ''abcdefghijklmnopqrstuvwxyzABCDEFGHIJKLMNOPQRSTUVWXYZ'')"
proof -
  have l: "lower ''ABCDEFGHIJKLMNOPQRSTUVWXYZ'' = ''abcdefghijklmnopqrstuvwxyz''"
    by (simp add: lower_def lower_byte_def)
  show ?thesis
    unfolding cls_ignorecase_def l
    by (auto simp: lower_byte_def)
qed

lemma hex_class_fun: "cls_ignorecase ''abcdef0123456789'' = is_hex_char"
  by (rule ext) (rule hex_class)

lemma scheme_class_fun: "cls_ignorecase ''abcdefghijklmnopqrstuvwxyz0123456789:/.'' = is_scheme_char"
  by (rule ext) (rule scheme_class)

lemma tld_class_not_dot: "\<not> tld_class CHR ''.''"
  by (simp add: tld_class_iff)

lemma list_all_dot: "list_all dot a = (CHR 0x0A \<notin> set a)"
  by (auto simp: list_all_iff dot_def)

lemma lower_byte_id: "c \<notin> set ''ABCDEFGHIJKLMNOPQRSTUVWXYZ'' \<Longrightarrow> lower_byte c = c"
proof -
  assume "c \<notin> set ''ABCDEFGHIJKLMNOPQRSTUVWXYZ''"
  then have "map_of (zip ''ABCDEFGHIJKLMNOPQRSTUVWXYZ'' ''abcdefghijklmnopqrstuvwxyz'') c = None"
    by (subst map_of_zip_is_None) simp_all
  then show ?thesis unfolding lower_byte_def by simp
qed

lemma valid_email_char_not_upper:
  "c \<in> set valid_email_chars \<Longrightarrow> c \<notin> set ''ABCDEFGHIJKLMNOPQRSTUVWXYZ''"
  unfolding valid_email_chars_def by auto

lemma valid_email_char_not_space:
  "c \<in> set valid_email_chars \<Longrightarrow> c \<notin> set whitespace"
  unfolding valid_email_chars_def whitespace_def by auto

lemma valid_email_char_ascii:
  assumes "c \<in> set valid_email_chars"
  shows "of_char c < (128::nat)" and "of_char c \<noteq> (124::nat)"
  using assms by (auto simp: valid_email_chars_def)

lemma valid_chars_example: "set ''a@b.com'' \<subseteq> set valid_email_chars"
  by (simp add: valid_email_chars_def)

section \<open>Byte strings\<close>

lemma length_strip_bytes: "length (strip_bytes chars s) \<le> length s"
proof -
  have "length (strip_bytes chars s) \<le> length (dropWhile (\<lambda>c. c \<in> set chars) s)"
    unfolding strip_bytes_def
    using length_dropWhile_le [of "\<lambda>c. c \<in> set chars" "rev (dropWhile (\<lambda>c. c \<in> set chars) s)"]
    by simp
  also have "\<dots> \<le> length s" by (rule length_dropWhile_le)
  finally show ?thesis .
qed

lemma strip_bytes_Nil: "strip_bytes chars [] = []"
  by (simp add: strip_bytes_def)

lemma strip_bytes_replicate: "c \<notin> set chars \<Longrightarrow> strip_bytes chars (replicate n c) = replicate n c"
  by (simp add: strip_bytes_def)

lemma strip_bytes_id:
  assumes "\<forall>c\<in>set s. c \<notin> set chars"
  shows "strip_bytes chars s = s"
proof -
  have "dropWhile (\<lambda>c. c \<in> set chars) s = s"
    using assms by (cases s) auto
  moreover have "dropWhile (\<lambda>c. c \<in> set chars) (rev s) = rev s"
    using assms by (cases "rev s") (auto simp: Cons_eq_append_conv dest: arg_cong [where f = set])
  ultimately show ?thesis by (simp add: strip_bytes_def)
qed

lemma split_on_not_Nil: "split_on sep xs \<noteq> []"
  by (induction xs) auto

lemma hd_split_on: "hd (split_on sep xs) = takeWhile (\<lambda>c. c \<noteq> sep) xs"
  by (induction xs) auto

lemma tl_split_on:
  "tl (split_on sep xs) =
     (case dropWhile (\<lambda>c. c \<noteq> sep) xs of [] \<Rightarrow> [] | c # rest \<Rightarrow> split_on sep rest)"
  by (induction xs) auto

lemma split_on_hd_tl: "split_on sep xs = hd (split_on sep xs) # tl (split_on sep xs)"
  using split_on_not_Nil [of sep xs] by simp

lemma take2_split_on_Nil:
  assumes "dropWhile (\<lambda>c. c \<noteq> sep) xs = []"
  shows "take 2 (split_on sep xs) = [xs]"
proof -
  have "takeWhile (\<lambda>c. c \<noteq> sep) xs = xs"
    using assms takeWhile_dropWhile_id [of "\<lambda>c. c \<noteq> sep" xs] by simp
  moreover have "tl (split_on sep xs) = []"
    unfolding tl_split_on assms by simp
  ultimately have "split_on sep xs = [xs]"
    using split_on_hd_tl [of sep xs] by (simp add: hd_split_on)
  then show ?thesis by simp
qed

lemma take2_split_on_Cons:
  assumes "dropWhile (\<lambda>c. c \<noteq> sep) xs = c # rest"
  shows "take 2 (split_on sep xs) =
           [takeWhile (\<lambda>c. c \<noteq> sep) xs, takeWhile (\<lambda>c. c \<noteq> sep) rest]"
proof -
  have "tl (split_on sep xs) = split_on sep rest"
    unfolding tl_split_on assms by simp
  then have "split_on sep xs =
      takeWhile (\<lambda>c. c \<noteq> sep) xs # takeWhile (\<lambda>c. c \<noteq> sep) rest # tl (split_on sep rest)"
    using split_on_hd_tl [of sep xs] split_on_hd_tl [of sep rest] by (simp add: hd_split_on)
  then show ?thesis by simp
qed

lemma takeWhile_until: "x \<notin> set xs \<Longrightarrow> takeWhile (\<lambda>c. c \<noteq> x) (xs @ x # ys) = xs"
  by (induction xs) auto

lemma dropWhile_until: "x \<notin> set xs \<Longrightarrow> dropWhile (\<lambda>c. c \<noteq> x) (xs @ x # ys) = x # ys"
  by (induction xs) auto

lemma takeWhile_all: "x \<notin> set xs \<Longrightarrow> takeWhile (\<lambda>c. c \<noteq> x) xs = xs"
  by (induction xs) auto

lemma split_at_first:
  "x \<notin> set xs \<Longrightarrow> x \<notin> set xs' \<Longrightarrow> (xs @ x # ys = xs' @ x # ys') = (xs = xs' \<and> ys = ys')"
proof (induction xs arbitrary: xs')
  case Nil
  then show ?case by (cases xs') auto
next
  case (Cons a xs)
  then show ?case by (cases xs') auto
qed




section \<open>The matcher computes the language\<close>

lemma nullable_lang: "nullable r = ([] \<in> lang r)"
  by (induction r) (auto intro: star_empty)

lemma star_cons_split:
  assumes "x \<in> star A" and "x = c # w"
  shows "\<exists>u v. w = u @ v \<and> c # u \<in> A \<and> v \<in> star A"
  using assms
proof (induction arbitrary: w rule: star.induct)
  case star_empty
  then show ?case by simp
next
  case (star_more u v)
  show ?case
  proof (cases u)
    case Nil
    with star_more show ?thesis by simp
  next
    case (Cons a u')
    with star_more.prems have "a = c" and "w = u' @ v" by simp_all
    with Cons star_more.hyps show ?thesis by blast
  qed
qed

lemma star_cons: "(c # w \<in> star A) = (\<exists>u v. w = u @ v \<and> c # u \<in> A \<and> v \<in> star A)"
proof
  assume "c # w \<in> star A"
  then show "\<exists>u v. w = u @ v \<and> c # u \<in> A \<and> v \<in> star A"
    by (rule star_cons_split) simp
next
  assume "\<exists>u v. w = u @ v \<and> c # u \<in> A \<and> v \<in> star A"
  then obtain u v where "w = u @ v" "c # u \<in> A" "v \<in> star A" by blast
  then show "c # w \<in> star A"
    using star_more [of "c # u" A v] by simp
qed

lemma deriv_lang: "(w \<in> lang (deriv c r)) = (c # w \<in> lang r)"
proof (induction r arbitrary: w)
  case (Seq r s)
  then show ?case
    by (auto simp: nullable_lang Cons_eq_append_conv)
next
  case (Star r)
  then show ?case
    by (auto simp: star_cons)
qed auto

lemma full_match_lang: "full_match r s = (s \<in> lang r)"
  by (induction s arbitrary: r) (simp_all add: nullable_lang deriv_lang)

lemma prefix_match_lang: "prefix_match r s = (\<exists>u v. s = u @ v \<and> u \<in> lang r)"
proof (induction s arbitrary: r)
  case Nil
  then show ?case by (simp add: nullable_lang)
next
  case (Cons c cs)
  show ?case
  proof (cases "nullable r")
    case True
    then have "c # cs = [] @ (c # cs) \<and> [] \<in> lang r" by (simp add: nullable_lang)
    with True show ?thesis by (metis prefix_match.simps(2))
  next
    case False
    then have "prefix_match r (c # cs) = (\<exists>u v. cs = u @ v \<and> c # u \<in> lang r)"
      by (simp add: Cons.IH deriv_lang)
    also have "\<dots> = (\<exists>u v. c # cs = u @ v \<and> u \<in> lang r)"
      using False by (auto simp: nullable_lang Cons_eq_append_conv)
    finally show ?thesis .
  qed
qed

lemma lang_Seq: "(w \<in> lang (Seq r s)) = (\<exists>u v. w = u @ v \<and> u \<in> lang r \<and> v \<in> lang s)"
  by auto

lemma lang_Byte: "(u \<in> lang (Byte p)) = (\<exists>c. u = [c] \<and> p c)"
  by auto

lemma lang_Seq_Byte: "(w \<in> lang (Seq (Byte p) r)) = (\<exists>c v. w = c # v \<and> p c \<and> v \<in> lang r)"
proof -
  have "(w \<in> lang (Seq (Byte p) r)) = (\<exists>u v. w = u @ v \<and> (\<exists>c. u = [c] \<and> p c) \<and> v \<in> lang r)"
    by auto
  also have "\<dots> = (\<exists>c v. w = [c] @ v \<and> p c \<and> v \<in> lang r)"
    by blast
  finally show ?thesis by simp
qed

lemma lang_SeqI: "u \<in> lang r \<Longrightarrow> v \<in> lang s \<Longrightarrow> u @ v \<in> lang (Seq r s)"
  by auto

lemma lang_times_Byte: "lang (times n (Byte p)) = {w. length w = n \<and> list_all p w}"
proof (induction n)
  case 0
  then show ?case by auto
next
  case (Suc n)
  show ?case
  proof (rule set_eqI)
    fix w
    show "(w \<in> lang (times (Suc n) (Byte p))) = (w \<in> {w. length w = Suc n \<and> list_all p w})"
      by (cases w) (auto simp: Suc lang_Seq_Byte simp del: lang.simps(5))
  qed
qed

lemma star_Byte: "star {[c] |c. p c} = {w. list_all p w}"
proof (rule set_eqI)
  fix w
  have "w \<in> star {[c] |c. p c} \<Longrightarrow> list_all p w"
    by (induction rule: star.induct) auto
  moreover have "list_all p w \<Longrightarrow> w \<in> star {[c] |c. p c}"
  proof (induction w)
    case Nil
    then show ?case by (simp add: star_empty)
  next
    case (Cons c w)
    then have "[c] \<in> {[c] |c. p c}" and "w \<in> star {[c] |c. p c}" by simp_all
    then have "[c] @ w \<in> star {[c] |c. p c}" by (rule star_more)
    then show ?case by simp
  qed
  ultimately show "(w \<in> star {[c] |c. p c}) = (w \<in> {w. list_all p w})" by blast
qed

lemma lang_at_least_Byte: "lang (at_least n (Byte p)) = {w. n \<le> length w \<and> list_all p w}"
proof (rule set_eqI)
  fix w
  show "(w \<in> lang (at_least n (Byte p))) = (w \<in> {w. n \<le> length w \<and> list_all p w})"
  proof
    assume "w \<in> lang (at_least n (Byte p))"
    then show "w \<in> {w. n \<le> length w \<and> list_all p w}"
      by (auto simp: at_least_def lang_times_Byte star_Byte)
  next
    assume "w \<in> {w. n \<le> length w \<and> list_all p w}"
    then have "take n w \<in> lang (times n (Byte p))" and "drop n w \<in> lang (Star (Byte p))"
      by (auto simp: lang_times_Byte star_Byte list_all_iff dest: in_set_takeD in_set_dropD)
    then have "take n w @ drop n w \<in> lang (Seq (times n (Byte p)) (Star (Byte p)))"
      by (rule lang_SeqI)
    then show "w \<in> lang (at_least n (Byte p))"
      by (simp add: at_least_def del: lang.simps)
  qed
qed

lemma lang_up_to_Byte: "lang (up_to n (Byte p)) = {w. length w \<le> n \<and> list_all p w}"
proof (induction n)
  case 0
  then show ?case by auto
next
  case (Suc n)
  show ?case
  proof (rule set_eqI)
    fix w
    show "(w \<in> lang (up_to (Suc n) (Byte p))) = (w \<in> {w. length w \<le> Suc n \<and> list_all p w})"
      by (cases w) (auto simp: Suc lang_Seq_Byte simp del: lang.simps(5))
  qed
qed

lemma lang_between_Byte:
  "m \<le> n \<Longrightarrow> lang (between m n (Byte p)) = {w. m \<le> length w \<and> length w \<le> n \<and> list_all p w}"
proof (rule set_eqI)
  fix w
  assume mn: "m \<le> n"
  show "(w \<in> lang (between m n (Byte p))) = (w \<in> {w. m \<le> length w \<and> length w \<le> n \<and> list_all p w})"
  proof
    assume "w \<in> lang (between m n (Byte p))"
    then show "w \<in> {w. m \<le> length w \<and> length w \<le> n \<and> list_all p w}"
      using mn by (auto simp: between_def lang_times_Byte lang_up_to_Byte)
  next
    assume "w \<in> {w. m \<le> length w \<and> length w \<le> n \<and> list_all p w}"
    then have "take m w \<in> lang (times m (Byte p))" and "drop m w \<in> lang (up_to (n - m) (Byte p))"
      by (auto simp: lang_times_Byte lang_up_to_Byte list_all_iff dest: in_set_takeD in_set_dropD)
    then have "take m w @ drop m w \<in> lang (Seq (times m (Byte p)) (up_to (n - m) (Byte p)))"
      by (rule lang_SeqI)
    then show "w \<in> lang (between m n (Byte p))"
      by (simp add: between_def del: lang.simps)
  qed
qed

lemma lang_between_2_8:
  "lang (between 2 8 (Byte p)) = {w. 2 \<le> length w \<and> length w \<le> 8 \<and> list_all p w}"
  by (rule lang_between_Byte) simp

lemma prefix_at_least: "prefix_match (at_least n (Byte p)) s = (n \<le> length (takeWhile p s))"
proof
  assume "prefix_match (at_least n (Byte p)) s"
  then obtain u v where uv: "s = u @ v" "n \<le> length u" "list_all p u"
    by (auto simp: prefix_match_lang lang_at_least_Byte)
  then have "takeWhile p s = u @ takeWhile p v"
    by (simp add: list_all_iff takeWhile_append2)
  with uv show "n \<le> length (takeWhile p s)" by simp
next
  assume "n \<le> length (takeWhile p s)"
  moreover have "list_all p (takeWhile p s)"
    by (auto simp: list_all_iff dest: set_takeWhileD)
  ultimately have "takeWhile p s \<in> lang (at_least n (Byte p))"
    by (simp add: lang_at_least_Byte)
  moreover have "s = takeWhile p s @ dropWhile p s" by simp
  ultimately show "prefix_match (at_least n (Byte p)) s"
    unfolding prefix_match_lang by blast
qed

lemma regroup: "(\<exists>l v. w = l @ v \<and> P l \<and>
        (\<exists>c v'. v = c # v' \<and> c = a \<and>
          (\<exists>d v''. v' = d @ v'' \<and> Q d \<and>
            (\<exists>c' t. v'' = c' # t \<and> c' = b \<and> R t)))) = (\<exists>l d t. w = l @ a # d @ b # t \<and> P l \<and> Q d \<and> R t)"
  (is "?L = ?R")
proof
  assume ?L
  then obtain l v c v' d v'' c' t where "w = l @ v" "P l" "v = c # v'" "c = a" "v' = d @ v''" "Q d"
    "v'' = c' # t" "c' = b" "R t" by blast
  then have "w = l @ a # d @ b # t \<and> P l \<and> Q d \<and> R t" by simp
  then show ?R by blast
next
  assume ?R
  then obtain l d t where h: "w = l @ a # d @ b # t" "P l" "Q d" "R t" by blast
  have "\<exists>c' t'. b # t = c' # t' \<and> c' = b \<and> R t'" using h by simp
  then have "\<exists>d' v''. d @ b # t = d' @ v'' \<and> Q d' \<and> (\<exists>c' t'. v'' = c' # t' \<and> c' = b \<and> R t')"
    using h by blast
  then have "\<exists>c v'. a # d @ b # t = c # v' \<and> c = a \<and>
     (\<exists>d' v''. v' = d' @ v'' \<and> Q d' \<and> (\<exists>c' t'. v'' = c' # t' \<and> c' = b \<and> R t'))"
    by simp
  with h show ?L by blast
qed

section \<open>The patterns of \<^verbatim>\<open>validation.py\<close>\<close>

lemma hash_regex_match:
  "prefix_match hash_regex s = (20 \<le> length (takeWhile is_hex_char s))"
  by (simp add: hash_regex_def prefix_at_least hex_class_fun)

lemma lang_extended_hash_regex:
  "(w \<in> lang extended_hash_regex) =
     (\<exists>a b. w = CHR ''$'' # a @ CHR ''$'' # b \<and> 1 \<le> length a \<and> length a \<le> 13 \<and> list_all dot a
        \<and> 20 \<le> length b \<and> list_all (cls_ignorecase ''abcdefghijklmnopqrstuvwxyz0123456789:/.'') b)"
proof -
  have "(w \<in> lang extended_hash_regex) =
      (\<exists>c v. w = c # v \<and> cls ''$'' c \<and>
         v \<in> lang (Seq (between 1 13 (Byte dot)) (Seq (Byte (cls ''$''))
               (at_least 20 (Byte (cls_ignorecase ''abcdefghijklmnopqrstuvwxyz0123456789:/.''))))))"
    unfolding extended_hash_regex_def by (rule lang_Seq_Byte)
  also have "\<dots> = (\<exists>v. w = CHR ''$'' # v \<and>
         (\<exists>a t. v = a @ t \<and> a \<in> lang (between 1 13 (Byte dot)) \<and> t \<in> lang (Seq (Byte (cls ''$''))
               (at_least 20 (Byte (cls_ignorecase ''abcdefghijklmnopqrstuvwxyz0123456789:/.''))))))"
    by (auto simp: cls_def simp del: lang.simps(5)) (auto simp del: lang.simps(3))
  also have "\<dots> = (\<exists>a b. w = CHR ''$'' # a @ CHR ''$'' # b \<and> 1 \<le> length a \<and> length a \<le> 13 \<and> list_all dot a
        \<and> 20 \<le> length b \<and> list_all (cls_ignorecase ''abcdefghijklmnopqrstuvwxyz0123456789:/.'') b)"
    by (simp only: lang_Seq_Byte lang_between_Byte lang_at_least_Byte cls_def) auto
  finally show ?thesis .
qed

lemma extended_hash_regex_length: "prefix_match extended_hash_regex s \<Longrightarrow> 23 \<le> length s"
  by (auto simp: prefix_match_lang lang_extended_hash_regex)

lemma extended_hash_regex_first: "prefix_match extended_hash_regex s \<Longrightarrow> \<exists>t. s = CHR ''$'' # t"
  by (auto simp: prefix_match_lang lang_extended_hash_regex)

lemma extended_hash_regex_match:
  "prefix_match extended_hash_regex s =
     (\<exists>a b t. s = CHR ''$'' # a @ CHR ''$'' # b @ t \<and> 1 \<le> length a \<and> length a \<le> 13 \<and>
        CHR 0x0A \<notin> set a \<and> 20 \<le> length b \<and> list_all is_scheme_char b)"
proof -
  have "prefix_match extended_hash_regex s =
     (\<exists>u t. s = u @ t \<and> (\<exists>a b. u = CHR ''$'' # a @ CHR ''$'' # b \<and> 1 \<le> length a \<and> length a \<le> 13 \<and>
        list_all dot a \<and> 20 \<le> length b \<and> list_all is_scheme_char b))"
    by (simp only: prefix_match_lang lang_extended_hash_regex scheme_class_fun)
  also have "\<dots> = (\<exists>a b t. s = (CHR ''$'' # a @ CHR ''$'' # b) @ t \<and> 1 \<le> length a \<and> length a \<le> 13 \<and>
        list_all dot a \<and> 20 \<le> length b \<and> list_all is_scheme_char b)"
    by blast
  also have "\<dots> = (\<exists>a b t. s = CHR ''$'' # a @ CHR ''$'' # b @ t \<and> 1 \<le> length a \<and> length a \<le> 13 \<and>
        CHR 0x0A \<notin> set a \<and> 20 \<le> length b \<and> list_all is_scheme_char b)"
    by (simp only: list_all_dot append_Cons append_assoc)
  finally show ?thesis .
qed

lemma lang_email_regex_bytes:
  "(w \<in> lang email_regex_bytes) =
     (\<exists>l d t. w = l @ CHR ''@'' # d @ CHR ''.'' # t \<and>
        1 \<le> length l \<and> list_all local_class l \<and>
        1 \<le> length d \<and> list_all domain_class d \<and>
        2 \<le> length t \<and> length t \<le> 8 \<and> list_all tld_class t)"
proof -
  have "(w \<in> lang email_regex_bytes) =
     (\<exists>l v. w = l @ v \<and> 1 \<le> length l \<and> list_all local_class l \<and>
        (\<exists>c v'. v = c # v' \<and> c = CHR ''@'' \<and>
          (\<exists>d v''. v' = d @ v'' \<and> 1 \<le> length d \<and> list_all domain_class d \<and>
            (\<exists>c' t. v'' = c' # t \<and> c' = CHR ''.'' \<and>
               2 \<le> length t \<and> length t \<le> 8 \<and> list_all tld_class t))))"
    unfolding email_regex_bytes_def
    by (simp only: lang_Seq_Byte lang_Seq [of _ "at_least _ _"] lang_at_least_Byte lang_between_2_8 cls_def
          mem_Collect_eq set_simps singleton_iff empty_iff insert_iff conj_assoc simp_thms)
  also have "\<dots> = (\<exists>l d t. w = l @ CHR ''@'' # d @ CHR ''.'' # t \<and>
        (1 \<le> length l \<and> list_all local_class l) \<and>
        (1 \<le> length d \<and> list_all domain_class d) \<and>
        (2 \<le> length t \<and> length t \<le> 8 \<and> list_all tld_class t))"
    using regroup [of w "\<lambda>l. 1 \<le> length l \<and> list_all local_class l" "CHR ''@''"
        "\<lambda>d. 1 \<le> length d \<and> list_all domain_class d" "CHR ''.''"
        "\<lambda>t. 2 \<le> length t \<and> length t \<le> 8 \<and> list_all tld_class t"]
    by (simp only: conj_assoc)
  finally show ?thesis by (simp only: conj_assoc)
qed

lemma is_email_iff:
  "is_email s =
     (length s \<le> 128 \<and>
      (s \<in> lang email_regex_bytes \<or>
       (s \<noteq> [] \<and> last s = CHR 0x0A \<and> butlast s \<in> lang email_regex_bytes)))"
  by (auto simp: is_email_def anchored_match_def full_match_lang)

lemma is_email_has_dot: "is_email s \<Longrightarrow> CHR ''.'' \<in> set s"
proof -
  assume "is_email s"
  then consider "s \<in> lang email_regex_bytes"
    | "s \<noteq> []" "butlast s \<in> lang email_regex_bytes"
    by (auto simp: is_email_iff)
  then show ?thesis
  proof cases
    case 1
    then show ?thesis by (auto simp: lang_email_regex_bytes)
  next
    case 2
    then have "CHR ''.'' \<in> set (butlast s)" by (auto simp: lang_email_regex_bytes)
    then show ?thesis by (rule in_set_butlastD)
  qed
qed

lemma not_is_email_no_dot: "CHR ''.'' \<notin> set s \<Longrightarrow> \<not> is_email s"
  using is_email_has_dot by blast

lemma is_email_Nil: "\<not> is_email []"
  using is_email_has_dot [of "[]"] by auto

lemma is_email_length: "is_email e \<Longrightarrow> length e \<le> 128"
  by (simp add: is_email_iff)

lemma is_email_example: "is_email ''a@b.com''"
proof -
  have "''a@b.com'' = ''a'' @ CHR ''@'' # ''b'' @ CHR ''.'' # ''com''" by simp
  moreover have "list_all local_class ''a''" "list_all domain_class ''b''" "list_all tld_class ''com''"
    by (simp_all add: local_class_iff domain_class_iff tld_class_iff)
  ultimately have "''a@b.com'' \<in> lang email_regex_bytes"
    unfolding lang_email_regex_bytes
    by (intro exI [of _ "''a''"] exI [of _ "''b''"] exI [of _ "''com''"]) simp
  then show ?thesis by (simp add: is_email_iff)
qed

lemma valid_email_parts:
  assumes "is_email e" and "set e \<subseteq> set valid_email_chars"
  obtains l dom where "e = l @ CHR ''@'' # dom" and "CHR ''@'' \<notin> set l" and "CHR ''@'' \<notin> set dom"
proof -
  have "CHR 0x0A \<notin> set e"
  proof
    assume "CHR 0x0A \<in> set e"
    then have "CHR 0x0A \<in> set valid_email_chars" using assms(2) by blast
    then have "CHR 0x0A \<notin> set whitespace" by (rule valid_email_char_not_space)
    then show False by (simp add: whitespace_def)
  qed
  have "e = [] \<or> last e \<noteq> CHR 0x0A"
  proof (cases "e = []")
    case True
    then show ?thesis by simp
  next
    case False
    then have "last e \<in> set e" by (rule last_in_set)
    with \<open>CHR 0x0A \<notin> set e\<close> show ?thesis by auto
  qed
  with assms(1) have "e \<in> lang email_regex_bytes"
    by (auto simp: is_email_iff)
  then obtain l d t where e: "e = l @ CHR ''@'' # d @ CHR ''.'' # t"
    and l: "list_all local_class l" and d: "list_all domain_class d" and t: "list_all tld_class t"
    unfolding lang_email_regex_bytes by blast
  have "CHR ''@'' \<notin> set l"
    using l by (auto simp: list_all_iff local_class_iff)
  moreover have "CHR ''@'' \<notin> set (d @ CHR ''.'' # t)"
    using d t by (auto simp: list_all_iff domain_class_iff tld_class_iff)
  ultimately show ?thesis using e that by blast
qed

section \<open>\<^verbatim>\<open>is_hash\<close>\<close>

lemma is_hash_short: "length s \<le> 10 \<Longrightarrow> \<not> is_hash X s"
proof -
  assume short: "length s \<le> 10"
  have "length (takeWhile is_hex_char s) \<le> length s"
    by (rule length_takeWhile_le)
  with short have "\<not> prefix_match hash_regex s"
    by (simp add: hash_regex_match)
  with short show ?thesis by (simp add: is_hash_def)
qed

lemma is_hash_hex:
  "s = [] \<or> last s \<noteq> CHR ''='' \<Longrightarrow> 20 \<le> length (takeWhile is_hex_char s) \<Longrightarrow>
     is_hash X s"
  by (auto simp: is_hash_def hash_regex_match simp del: prefix_match.simps)

lemma is_hash_not:
  assumes "s = [] \<or> last s \<noteq> CHR ''=''"
    and "length (takeWhile is_hex_char s) < 20"
    and "\<And>t. s \<noteq> CHR ''$'' # t"
  shows "\<not> is_hash X s"
proof -
  have "\<not> prefix_match hash_regex s"
    using assms(2) by (simp add: hash_regex_match del: prefix_match.simps)
  moreover have "\<not> prefix_match extended_hash_regex s"
    using assms(3) extended_hash_regex_first [of s] by blast
  ultimately show ?thesis
    using assms(1) by (auto simp: is_hash_def simp del: prefix_match.simps)
qed

lemma is_hash_unfold:
  "is_hash X s =
     (if 10 < length s \<and> last s = CHR ''='' then b64decode X s \<noteq> None
      else (20 \<le> length (takeWhile is_hex_char s) \<or>
            (23 \<le> length s \<and>
             (\<exists>a b t. s = CHR ''$'' # a @ CHR ''$'' # b @ t \<and> 1 \<le> length a \<and> length a \<le> 13 \<and>
                CHR 0x0A \<notin> set a \<and> 20 \<le> length b \<and> list_all is_scheme_char b))))"
proof -
  have "s \<noteq> []" if "10 < length s" using that by auto
  then show ?thesis
    unfolding is_hash_def hash_regex_match extended_hash_regex_match
    by (auto split: option.splits)
qed

lemma is_hash_md5: "is_hash X ''5f4dcc3b5aa765d61d8327deb882cf99''"
  by (rule is_hash_hex) (simp_all add: is_hex_char_def)

lemma is_hash_100_hex: "is_hash X (replicate 100 CHR ''a'')"
  by (rule is_hash_hex) (simp_all add: is_hex_char_def)

lemma not_is_hash_xs: "0 < n \<Longrightarrow> \<not> is_hash X (replicate n CHR ''x'')"
proof (rule is_hash_not)
  assume "0 < n"
  then show "replicate n CHR ''x'' = [] \<or> last (replicate n CHR ''x'') \<noteq> CHR ''=''" by simp
  show "length (takeWhile is_hex_char (replicate n CHR ''x'')) < 20"
    by (simp add: is_hex_char_def)
  show "replicate n CHR ''x'' \<noteq> CHR ''$'' # t" for t
    by (cases n) simp_all
qed

section \<open>The constructor\<close>

lemma cleanup_simps:
  "email (cleanup e u p h m) = filter_email e"
  "username (cleanup e u p h m) = translate_delete [CHR 0x27, CHR 0x5C] (strip_bytes whitespace u)"
  "password (cleanup e u p h m) = strip_bytes crlf p"
  "hash (cleanup e u p h m) = strip_bytes crlf h"
  "misc (cleanup e u p h m) = strip_bytes crlf m"
  by (simp_all add: cleanup_def)

lemma filter_email_Nil: "filter_email [] = []"
  by (simp add: filter_email_def strip_bytes_Nil lower_def)

lemma filter_email_bad: "filter_email ''bad'' = ''bad''"
  by (simp add: filter_email_def strip_bytes_def whitespace_def lower_def lower_byte_def valid_email_chars_def)

lemma filter_email_example: "filter_email ''a@b.com'' = ''a@b.com''"
  by (simp add: filter_email_def strip_bytes_def whitespace_def lower_def lower_byte_def valid_email_chars_def)

lemma filter_email_id:
  assumes "set e \<subseteq> set valid_email_chars"
  shows "filter_email e = e"
proof -
  have "strip_bytes whitespace e = e"
    using assms valid_email_char_not_space by (intro strip_bytes_id) blast
  moreover have "lower e = e"
    unfolding lower_def using assms valid_email_char_not_upper lower_byte_id
    by (intro map_idI) blast
  moreover have "filter (\<lambda>c. c \<in> set valid_email_chars) e = e"
    using assms by (intro filter_True) blast
  ultimately show ?thesis by (simp add: filter_email_def)
qed

lemma resolve_email_keeps:
  "resolve_email strict a = Inr b \<Longrightarrow> password b = password a \<and> hash b = hash a \<and> misc b = misc a"
  by (auto simp: resolve_email_def split: if_splits)

lemma resolve_email_Inl:
  "(resolve_email strict a = Inl err) =
     (strict \<and> email a \<noteq> [] \<and> \<not> is_email (email a) \<and> err = AccountCreationError)"
  by (auto simp: resolve_email_def)

lemma resolve_email_valid:
  "is_email (email a) \<Longrightarrow> resolve_email strict a = Inr a"
  by (auto simp: resolve_email_def is_email_Nil)

lemma reclassified_Inl:
  "(reclassified X e u p h m strict = Inl err) =
     (strict \<and> filter_email e \<noteq> [] \<and> \<not> is_email (filter_email e) \<and> err = AccountCreationError)"
proof (cases "resolve_email strict (cleanup e u p h m)")
  case (Inl x)
  then show ?thesis
    using resolve_email_Inl [of strict "cleanup e u p h m" x]
    by (auto simp: reclassified_def cleanup_simps)
next
  case (Inr a)
  then have "\<not> (strict \<and> filter_email e \<noteq> [] \<and> \<not> is_email (filter_email e))"
    using resolve_email_Inl [of strict "cleanup e u p h m" AccountCreationError]
    by (auto simp: cleanup_simps)
  with Inr show ?thesis by (auto simp: reclassified_def)
qed

lemma AccountE:
  assumes "Account X e u p h m strict = Inr r"
  obtains a where "resolve_email strict (cleanup e u p h m) = Inr a"
    and "gate (reclassify_misc (reclassify_hash X h a))"
    and "r = truncate_fields X (reclassify_misc (reclassify_hash X h a))"
  using assms
  by (auto simp: Account_def reclassified_def split: sum.splits if_splits)

lemma Account_Inl:
  "(Account X e u p h m strict = Inl err) =
     (err = AccountCreationError \<and>
      ((strict \<and> filter_email e \<noteq> [] \<and> \<not> is_email (filter_email e)) \<or>
       (\<exists>a. reclassified X e u p h m strict = Inr a \<and> \<not> gate a)))"
proof (cases "reclassified X e u p h m strict")
  case (Inl x)
  then show ?thesis
    using reclassified_Inl [of X e u p h m strict x] by (auto simp: Account_def)
next
  case (Inr a)
  then have "\<not> (strict \<and> filter_email e \<noteq> [] \<and> \<not> is_email (filter_email e))"
    using reclassified_Inl [of X e u p h m strict AccountCreationError] by auto
  with Inr show ?thesis by (auto simp: Account_def)
qed

lemma Account_Inr:
  "(Account X e u p h m strict = Inr r) =
     (\<exists>a. reclassified X e u p h m strict = Inr a \<and> gate a \<and> r = truncate_fields X a)"
  by (auto simp: Account_def split: sum.splits)

lemma Account_all_empty: "Account X [] [] [] [] [] strict = Inl AccountCreationError"
  by (simp add: Account_def reclassified_def resolve_email_def cleanup_def filter_email_Nil
      strip_bytes_Nil translate_delete_def is_email_Nil reclassify_hash_def reclassify_misc_def gate_def)

lemma reclassify_keeps_email: "email (reclassify_misc (reclassify_hash X h a)) = email a"
  by (simp add: reclassify_misc_def reclassify_hash_def)

lemma short_password_kept:
  assumes "length s \<le> 10" and "Account X e u s h m strict = Inr r"
  shows "hash r = take max_length_2 (clean_encoding X (strip_bytes crlf h)) \<and>
         password r = take max_length_1 (clean_encoding X (strip_bytes crlf s))"
proof -
  from assms(2) obtain a where a: "resolve_email strict (cleanup e u s h m) = Inr a"
    and r: "r = truncate_fields X (reclassify_misc (reclassify_hash X h a))"
    by (rule AccountE)
  from a have keep: "password a = strip_bytes crlf s" "hash a = strip_bytes crlf h"
    using resolve_email_keeps [OF a] by (simp_all add: cleanup_def)
  have "length (password a) \<le> 10"
    using assms(1) length_strip_bytes [of crlf s] keep by simp
  then have "reclassify_hash X h a = a" and "length (password a) < 100"
    by (simp_all add: reclassify_hash_def is_hash_short)
  then have "reclassify_misc (reclassify_hash X h a) = a"
    by (simp add: reclassify_misc_def)
  with r keep show ?thesis
    by (simp add: truncate_fields_def)
qed

lemma raw_hash_blocks_reclassification:
  assumes "h \<noteq> []" and "Account X e u p h m strict = Inr r"
  shows "hash r = take max_length_2 (clean_encoding X (strip_bytes crlf h))"
proof -
  from assms(2) obtain a where a: "resolve_email strict (cleanup e u p h m) = Inr a"
    and r: "r = truncate_fields X (reclassify_misc (reclassify_hash X h a))"
    by (rule AccountE)
  from assms(1) have "reclassify_hash X h a = a" by (simp add: reclassify_hash_def)
  then have "hash (reclassify_misc (reclassify_hash X h a)) = hash a"
    by (simp add: reclassify_misc_def)
  with r resolve_email_keeps [OF a] show ?thesis
    by (simp add: truncate_fields_def cleanup_simps)
qed

lemma overlong_password_moved:
  assumes "is_email (filter_email e)" and "strip_bytes crlf m = []"
    and "100 \<le> length (strip_bytes crlf p)"
    and "h \<noteq> [] \<or> \<not> is_hash X (strip_bytes crlf p)"
  shows "Account X e u p h m strict =
           Inr (truncate_fields X ((cleanup e u p h m)\<lparr>password := [], misc := strip_bytes crlf p\<rparr>))"
proof -
  let ?a = "cleanup e u p h m"
  have res: "resolve_email strict ?a = Inr ?a"
    using assms(1) by (simp add: resolve_email_valid cleanup_simps)
  have "reclassify_hash X h ?a = ?a"
    using assms(4) by (auto simp: reclassify_hash_def cleanup_simps)
  moreover have "reclassify_misc ?a = ?a\<lparr>password := [], misc := strip_bytes crlf p\<rparr>"
    using assms(2,3) by (simp add: reclassify_misc_def cleanup_simps)
  ultimately have rec: "reclassified X e u p h m strict =
      Inr (?a\<lparr>password := [], misc := strip_bytes crlf p\<rparr>)"
    using res by (simp add: reclassified_def)
  have "email ?a \<noteq> []"
    using assms(1) is_email_Nil by (auto simp: cleanup_simps)
  then have "gate (?a\<lparr>password := [], misc := strip_bytes crlf p\<rparr>)"
    by (simp add: gate_def)
  with rec show ?thesis by (simp add: Account_def)
qed

lemma hash_password_moved:
  assumes "is_email (filter_email e)" and "strip_bytes crlf p \<noteq> []"
    and "is_hash X (strip_bytes crlf p)"
  shows "Account X e u p [] m strict =
           Inr (truncate_fields X ((cleanup e u p [] m)\<lparr>password := [], hash := strip_bytes crlf p\<rparr>))"
proof -
  let ?a = "cleanup e u p [] m"
  have res: "resolve_email strict ?a = Inr ?a"
    using assms(1) by (simp add: resolve_email_valid cleanup_simps)
  have "reclassify_hash X [] ?a = ?a\<lparr>password := [], hash := strip_bytes crlf p\<rparr>"
    using assms(2,3) by (simp add: reclassify_hash_def cleanup_simps)
  moreover have "reclassify_misc (?a\<lparr>password := [], hash := strip_bytes crlf p\<rparr>) =
      ?a\<lparr>password := [], hash := strip_bytes crlf p\<rparr>"
    by (simp add: reclassify_misc_def)
  ultimately have rec: "reclassified X e u p [] m strict =
      Inr (?a\<lparr>password := [], hash := strip_bytes crlf p\<rparr>)"
    using res by (simp add: reclassified_def)
  have "email ?a \<noteq> []"
    using assms(1) is_email_Nil by (auto simp: cleanup_simps)
  then have "gate (?a\<lparr>password := [], hash := strip_bytes crlf p\<rparr>)"
    by (simp add: gate_def)
  with rec show ?thesis by (simp add: Account_def)
qed




lemma Account_valid_email:
  assumes "is_email e" and "set e \<subseteq> set valid_email_chars" and "clean_encoding X e = e"
  shows "\<exists>r. Account X e u p h m strict = Inr r \<and> email r = e"
proof -
  let ?a = "cleanup e u p h m"
  have fe: "email ?a = e" using assms(2) by (simp add: cleanup_simps filter_email_id)
  then have res: "resolve_email strict ?a = Inr ?a"
    using assms(1) by (simp add: resolve_email_valid)
  let ?b = "reclassify_misc (reclassify_hash X h ?a)"
  have eb: "email ?b = e" using fe by (simp add: reclassify_keeps_email)
  moreover have "e \<noteq> []" using assms(1) is_email_Nil by auto
  ultimately have "gate ?b" by (simp add: gate_def)
  then have "Account X e u p h m strict = Inr (truncate_fields X ?b)"
    using res by (simp add: Account_def reclassified_def)
  moreover have "email (truncate_fields X ?b) = e"
    using eb assms(3) is_email_length [OF assms(1)]
    by (simp add: truncate_fields_def last_n_def max_length_1_def)
  ultimately show ?thesis by blast
qed

lemmas account_eval =
  Account_def reclassified_def cleanup_def resolve_email_def reclassify_hash_def
  reclassify_misc_def gate_def truncate_fields_def filter_email_def strip_bytes_def
  whitespace_def crlf_def translate_delete_def lower_def lower_byte_def
  valid_email_chars_def last_n_def max_length_1_def max_length_2_def ascii_externals_def

lemma lower_Nil_iff: "(lower s = []) = (s = [])"
  by (simp add: lower_def)

lemma resolve_email_to_valid:
  assumes "is_email (email a) \<or> (email a = [] \<and> is_email (username a))"
  shows "\<exists>b. resolve_email strict a = Inr b \<and> email b \<noteq> [] \<and> password b = password a \<and>
           hash b = hash a \<and> misc b = misc a"
proof (cases "email a = []")
  case True
  with assms have u: "is_email (username a)" using is_email_Nil by auto
  then have "username a \<noteq> []" using is_email_Nil by auto
  with True u show ?thesis by (simp add: resolve_email_def lower_Nil_iff)
next
  case False
  with assms have "is_email (email a)" by blast
  with False show ?thesis by (simp add: resolve_email_valid)
qed

lemma overlong_password_general:
  assumes "is_email (filter_email e) \<or>
             (filter_email e = [] \<and>
              is_email (translate_delete [CHR 0x27, CHR 0x5C] (strip_bytes whitespace u)))"
    and "strip_bytes crlf m = []"
    and "100 \<le> length (strip_bytes crlf p)"
    and "strip_bytes crlf h \<noteq> [] \<or> \<not> is_hash X (strip_bytes crlf p)"
  shows "\<exists>a. Account X e u p h m strict = Inr (truncate_fields X a) \<and> password a = [] \<and>
           misc a = strip_bytes crlf p"
proof -
  let ?a = "cleanup e u p h m"
  from assms(1) have "is_email (email ?a) \<or> (email ?a = [] \<and> is_email (username ?a))"
    by (simp add: cleanup_simps)
  then obtain b where res: "resolve_email strict ?a = Inr b" and eb: "email b \<noteq> []"
    and pb: "password b = strip_bytes crlf p" and hb: "hash b = strip_bytes crlf h"
    and mb: "misc b = strip_bytes crlf m"
    using resolve_email_to_valid [of ?a strict] by (auto simp: cleanup_simps)
  have "h \<noteq> [] \<or> \<not> is_hash X (strip_bytes crlf p)"
    using assms(4) strip_bytes_Nil [of crlf] by auto
  then have "reclassify_hash X h b = b"
    by (auto simp: reclassify_hash_def pb)
  moreover have "reclassify_misc b = b\<lparr>password := [], misc := strip_bytes crlf p\<rparr>"
    using assms(2,3) by (simp add: reclassify_misc_def pb mb)
  ultimately have rec: "reclassified X e u p h m strict =
      Inr (b\<lparr>password := [], misc := strip_bytes crlf p\<rparr>)"
    using res by (simp add: reclassified_def)
  have "gate (b\<lparr>password := [], misc := strip_bytes crlf p\<rparr>)"
    using eb by (simp add: gate_def)
  with rec have "Account X e u p h m strict =
      Inr (truncate_fields X (b\<lparr>password := [], misc := strip_bytes crlf p\<rparr>))"
    by (simp add: Account_def)
  then show ?thesis by (intro exI [of _ "b\<lparr>password := [], misc := strip_bytes crlf p\<rparr>"]) simp
qed

section \<open>Identifier, document and equality\<close>

lemma account_bytes_append:
  "account_bytes r =
     email r @ CHR 0x00 # username r @ CHR 0x00 # password r @ CHR 0x00 # hash r @ CHR 0x00 # misc r"
  by (simp add: account_bytes_def)

lemma account_bytes_inject:
  assumes "CHR 0x00 \<notin> set (email r1 @ username r1 @ password r1 @ hash r1)"
    and "CHR 0x00 \<notin> set (email r2 @ username r2 @ password r2 @ hash r2)"
  shows "(account_bytes r1 = account_bytes r2) =
         (email r1 = email r2 \<and> username r1 = username r2 \<and> password r1 = password r2 \<and>
          hash r1 = hash r2 \<and> misc r1 = misc r2)"
  using assms by (simp add: account_bytes_append split_at_first)

lemma account_eq_iff:
  "account_eq X r1 r2 = (builtin_hash X (account_bytes r1) = builtin_hash X (account_bytes r2))"
  by (simp add: account_eq_def account_hash_def)

lemma split_email_eq:
  "split_email r =
     (takeWhile (\<lambda>c. c \<noteq> CHR ''@'') (email r),
      takeWhile (\<lambda>c. c \<noteq> CHR ''@'') (drop 1 (dropWhile (\<lambda>c. c \<noteq> CHR ''@'') (email r))))"
proof (cases "dropWhile (\<lambda>c. c \<noteq> CHR ''@'') (email r)")
  case Nil
  have tw: "takeWhile (\<lambda>c. c \<noteq> CHR ''@'') (email r) = email r"
    using Nil takeWhile_dropWhile_id [of "\<lambda>c. c \<noteq> CHR ''@''" "email r"] by simp
  have "split_email r = (email r, [])"
    unfolding split_email_def take2_split_on_Nil [OF Nil] by simp
  also have "\<dots> = (takeWhile (\<lambda>c. c \<noteq> CHR ''@'') (email r),
      takeWhile (\<lambda>c. c \<noteq> CHR ''@'') (drop 1 (dropWhile (\<lambda>c. c \<noteq> CHR ''@'') (email r))))"
    unfolding Nil tw by simp
  finally show ?thesis .
next
  case (Cons c rest)
  show ?thesis
    unfolding split_email_def take2_split_on_Cons [OF Cons] Cons by simp
qed

lemma to_object_id_eq:
  "to_object_id X r =
     (if email r \<noteq> [] then
        decode X (rev (takeWhile (\<lambda>c. c \<noteq> CHR ''@'') (drop 1 (dropWhile (\<lambda>c. c \<noteq> CHR ''@'') (email r)))))
          @ [124]
          @ decode X (b64encode X (take 6 (sha256 X (takeWhile (\<lambda>c. c \<noteq> CHR ''@'') (email r)))))
          @ decode X (b64encode X (take 6 (sha256 X (account_bytes r))))
      else [124] @ decode X (b64encode X (take 12 (sha256 X (account_bytes r)))))"
  by (simp add: to_object_id_def split_email_eq)

lemma single_at_rest:
  assumes "length (filter (\<lambda>c. c = CHR ''@'') e) \<le> 1"
  shows "CHR ''@'' \<notin> set (drop 1 (dropWhile (\<lambda>c. c \<noteq> CHR ''@'') e))"
proof (cases "dropWhile (\<lambda>c. c \<noteq> CHR ''@'') e")
  case Nil
  show ?thesis unfolding Nil by simp
next
  case (Cons c rest)
  then have c: "c = CHR ''@''"
    using hd_dropWhile [of "\<lambda>c. c \<noteq> CHR ''@''" e] by auto
  have "e = takeWhile (\<lambda>c. c \<noteq> CHR ''@'') e @ c # rest"
    using Cons takeWhile_dropWhile_id [of "\<lambda>c. c \<noteq> CHR ''@''" e] by simp
  then have "filter (\<lambda>c. c = CHR ''@'') e =
      filter (\<lambda>c. c = CHR ''@'') (takeWhile (\<lambda>c. c \<noteq> CHR ''@'') e @ c # rest)"
    by simp
  also have "\<dots> = filter (\<lambda>c. c = CHR ''@'') (takeWhile (\<lambda>c. c \<noteq> CHR ''@'') e) @
      c # filter (\<lambda>c. c = CHR ''@'') rest"
    using c by simp
  finally have "length (filter (\<lambda>c. c = CHR ''@'') e) \<ge> 1 + length (filter (\<lambda>c. c = CHR ''@'') rest)"
    by simp
  with assms have "length (filter (\<lambda>c. c = CHR ''@'') rest) = 0"
    by linarith
  then have "filter (\<lambda>c. c = CHR ''@'') rest = []"
    by (rule length_0_conv [THEN iffD1])
  then have "CHR ''@'' \<notin> set rest"
    by (auto simp: filter_empty_conv)
  then show ?thesis unfolding Cons by simp
qed

lemma spec_object_id_agrees:
  assumes "length (filter (\<lambda>c. c = CHR ''@'') (email r)) \<le> 1"
  shows "to_object_id X r = spec_object_id X r"
proof -
  have tw: "takeWhile (\<lambda>c. c \<noteq> CHR ''@'') (drop 1 (dropWhile (\<lambda>c. c \<noteq> CHR ''@'') (email r))) =
      drop 1 (dropWhile (\<lambda>c. c \<noteq> CHR ''@'') (email r))"
    using single_at_rest [OF assms] by (auto simp: takeWhile_eq_all_conv)
  show ?thesis
    unfolding to_object_id_eq tw spec_object_id_def spec_split_email_def account_bytes_append
    by (simp add: Let_def)
qed

lemma document_lookup:
  "document X r ''_id'' = Some (to_object_id X r)"
  "email r \<noteq> [] \<Longrightarrow> document X r ''e'' = Some (decode X (fst (split_email r)))"
  by (simp_all add: document_def Let_def)

lemma ascii_codecD:
  assumes "ascii_codec X" and "\<forall>c\<in>set s. of_char c < (128::nat)"
  shows "decode X s = map of_char s" and "clean_encoding X s = s"
    and "str_encode X (map of_char s) = Some s"
  using assms unfolding ascii_codec_def by blast+

lemma ascii_codec_ascii_externals: "ascii_codec ascii_externals"
  by (simp add: ascii_codec_def ascii_externals_def comp_def)

lemma rebuilt_email:
  assumes "ascii_codec X" and "is_email (email r)" and "set (email r) \<subseteq> set valid_email_chars"
  shows "\<exists>i. document X r ''e'' = Some i \<and>
           str_encode X (i @ [64] @ rev (hd (split_on 124 (to_object_id X r)))) = Some (email r)"
proof -
  from assms(2,3) obtain l dom where e: "email r = l @ CHR ''@'' # dom"
    and l: "CHR ''@'' \<notin> set l" and dom: "CHR ''@'' \<notin> set dom"
    by (rule valid_email_parts)
  have ne: "email r \<noteq> []" using e by simp
  have ascii: "\<forall>c\<in>set (email r). of_char c < (128::nat)"
    using assms(3) valid_email_char_ascii(1) by blast
  have sp: "split_email r = (l, dom)"
    unfolding split_email_eq e using l dom
    by (simp add: takeWhile_until dropWhile_until takeWhile_all)
  have dl: "decode X l = map of_char l"
    using ascii by (intro ascii_codecD(1) [OF assms(1)]) (simp add: e)
  have dd: "decode X (rev dom) = map of_char (rev dom)"
    using ascii by (intro ascii_codecD(1) [OF assms(1)]) (simp add: e)
  have nobar: "124 \<notin> set (map of_char (rev dom) :: nat list)"
  proof
    assume "124 \<in> set (map of_char (rev dom) :: nat list)"
    then obtain c where c: "c \<in> set dom" and "of_char c = (124::nat)" by auto
    from c have "c \<in> set valid_email_chars" using assms(3) by (auto simp: e)
    then have "of_char c \<noteq> (124::nat)" by (rule valid_email_char_ascii(2))
    with \<open>of_char c = (124::nat)\<close> show False by simp
  qed
  obtain rest where oid: "to_object_id X r = map of_char (rev dom) @ 124 # rest"
    using ne sp dd by (simp add: to_object_id_def)
  have "hd (split_on 124 (to_object_id X r)) = map of_char (rev dom)"
    unfolding hd_split_on oid using nobar by (rule takeWhile_until)
  then have "decode X l @ [64] @ rev (hd (split_on 124 (to_object_id X r))) = map of_char (email r)"
    by (simp add: dl e rev_map)
  moreover have "str_encode X (map of_char (email r)) = Some (email r)"
    using ascii by (rule ascii_codecD(3) [OF assms(1)])
  moreover have "document X r ''e'' = Some (decode X l)"
    using document_lookup(2) [OF ne, of X] sp by simp
  ultimately show ?thesis by simp
qed

section \<open>The claims\<close>

subsection \<open>C1: the identifier\<close>

text \<open>
  C1, as amended. For every record with a non-empty email, \<^verbatim>\<open>to_object_id\<close> returns the
  reversed domain, \<^verbatim>\<open>|\<close>, the Base64 of the first 6 bytes of the SHA-256 of the local
  part and the Base64 of the first 6 bytes of the SHA-256 of the five fields joined by
  NUL, each passed through \<^verbatim>\<open>decode\<close>; the local part is what precedes the first
  \<^verbatim>\<open>@\<close> of the email and the domain is what stands between the first \<^verbatim>\<open>@\<close> and the
  second one, or the end of the email when there is no second one (with no \<^verbatim>\<open>@\<close> the
  whole email is local and the domain is empty). For a record with an empty email it
  returns \<^verbatim>\<open>|\<close> and the Base64 of the first 12 bytes of that last digest. When the email
  has at most one \<^verbatim>\<open>@\<close> this is the identifier of the specification.
\<close>

theorem object_id_formula:
  "to_object_id X r =
     (if email r \<noteq> [] then
        decode X (rev (takeWhile (\<lambda>c. c \<noteq> CHR ''@'')
                        (drop 1 (dropWhile (\<lambda>c. c \<noteq> CHR ''@'') (email r))))) @ [124] @
        decode X (b64encode X (take 6 (sha256 X (takeWhile (\<lambda>c. c \<noteq> CHR ''@'') (email r))))) @
        decode X (b64encode X (take 6 (sha256 X
          (email r @ [CHR 0x00] @ username r @ [CHR 0x00] @ password r @ [CHR 0x00] @ hash r
             @ [CHR 0x00] @ misc r))))
      else
        [124] @ decode X (b64encode X (take 12 (sha256 X
          (email r @ [CHR 0x00] @ username r @ [CHR 0x00] @ password r @ [CHR 0x00] @ hash r
             @ [CHR 0x00] @ misc r))))) \<and>
   (length (filter (\<lambda>c. c = CHR ''@'') (email r)) \<le> 1 \<longrightarrow>
      to_object_id X r = spec_object_id X r)"
  using spec_object_id_agrees [of r X]
  by (simp add: to_object_id_eq account_bytes_append)

theorem object_id_formula_witness:
  "to_object_id ascii_externals
     \<lparr>email = ''a@b.com'', username = [], password = ''hunter2'', hash = [], misc = []\<rparr> =
     [109, 111, 99, 46, 98, 124] @
     decode ascii_externals (b64encode ascii_externals (take 6 (sha256 ascii_externals ''a''))) @
     decode ascii_externals (b64encode ascii_externals (take 6 (sha256 ascii_externals
       (''a@b.com'' @ [CHR 0x00] @ [] @ [CHR 0x00] @ ''hunter2'' @ [CHR 0x00] @ [] @ [CHR 0x00] @ [])))) \<and>
   to_object_id ascii_externals
     \<lparr>email = ''a@b.com'', username = [], password = ''hunter2'', hash = [], misc = []\<rparr> =
   spec_object_id ascii_externals
     \<lparr>email = ''a@b.com'', username = [], password = ''hunter2'', hash = [], misc = []\<rparr>"
proof -
  let ?r = "\<lparr>email = ''a@b.com'', username = [], password = ''hunter2'', hash = [], misc = []\<rparr>"
  have d: "decode ascii_externals ''moc.b'' = [109, 111, 99, 46, 98]"
    by (simp add: ascii_externals_def)
  have one: "length (filter (\<lambda>c. c = CHR ''@'') (email ?r)) \<le> 1" by simp
  from object_id_formula [of ascii_externals ?r]
  have "to_object_id ascii_externals ?r =
      decode ascii_externals ''moc.b'' @ [124] @
      decode ascii_externals (b64encode ascii_externals (take 6 (sha256 ascii_externals ''a''))) @
      decode ascii_externals (b64encode ascii_externals (take 6 (sha256 ascii_externals
        (''a@b.com'' @ [CHR 0x00] @ [] @ [CHR 0x00] @ ''hunter2'' @ [CHR 0x00] @ [] @ [CHR 0x00] @ []))))"
    by simp
  then have 1: "to_object_id ascii_externals ?r =
      [109, 111, 99, 46, 98, 124] @
      decode ascii_externals (b64encode ascii_externals (take 6 (sha256 ascii_externals ''a''))) @
      decode ascii_externals (b64encode ascii_externals (take 6 (sha256 ascii_externals
        (''a@b.com'' @ [CHR 0x00] @ [] @ [CHR 0x00] @ ''hunter2'' @ [CHR 0x00] @ [] @ [CHR 0x00] @ []))))"
    unfolding d by simp
  have 2: "to_object_id ascii_externals ?r = spec_object_id ascii_externals ?r"
    using conjunct2 [OF object_id_formula [of ascii_externals ?r]] one by (rule mp)
  from 1 2 show ?thesis by (rule conjI)
qed

text \<open>
  C1 as stated, with the domain everything after the first \<^verbatim>\<open>@\<close>, fails for the
  record built from the email \<^verbatim>\<open>b'a@b@c'\<close>, the username \<^verbatim>\<open>b'bob'\<close> and the password
  \<^verbatim>\<open>b'pw'\<close> (an invalid email is kept when there is a username): its identifier
  begins with \<^verbatim>\<open>b|\<close>, the claim's with \<^verbatim>\<open>c@b|\<close>.
\<close>

theorem object_id_second_at:
  "Account ascii_externals ''a@b@c'' ''bob'' ''pw'' [] [] False =
     Inr \<lparr>email = ''a@b@c'', username = ''bob'', password = ''pw'', hash = [], misc = []\<rparr> \<and>
   take 2 (to_object_id ascii_externals
     \<lparr>email = ''a@b@c'', username = ''bob'', password = ''pw'', hash = [], misc = []\<rparr>) = [98, 124] \<and>
   take 4 (spec_object_id ascii_externals
     \<lparr>email = ''a@b@c'', username = ''bob'', password = ''pw'', hash = [], misc = []\<rparr>) = [99, 64, 98, 124] \<and>
   to_object_id ascii_externals
     \<lparr>email = ''a@b@c'', username = ''bob'', password = ''pw'', hash = [], misc = []\<rparr> \<noteq>
   spec_object_id ascii_externals
     \<lparr>email = ''a@b@c'', username = ''bob'', password = ''pw'', hash = [], misc = []\<rparr>"
proof -
  let ?r = "\<lparr>email = ''a@b@c'', username = ''bob'', password = ''pw'', hash = [], misc = []\<rparr>"
  have 1: "Account ascii_externals ''a@b@c'' ''bob'' ''pw'' [] [] False = Inr ?r"
    by (simp add: account_eval not_is_email_no_dot is_hash_short)
  have 2: "take 2 (to_object_id ascii_externals ?r) = [98, 124]"
    by (simp add: to_object_id_eq ascii_externals_def)
  have 3: "take 4 (spec_object_id ascii_externals ?r) = [99, 64, 98, 124]"
    by (simp add: spec_object_id_def spec_split_email_def ascii_externals_def)
  have "take 2 (spec_object_id ascii_externals ?r) = take 2 (take 4 (spec_object_id ascii_externals ?r))"
    by simp
  also have "\<dots> = [99, 64]" unfolding 3 by simp
  finally have "take 2 (spec_object_id ascii_externals ?r) \<noteq> take 2 (to_object_id ascii_externals ?r)"
    unfolding 2 by simp
  then have 4: "to_object_id ascii_externals ?r \<noteq> spec_object_id ascii_externals ?r"
    by auto
  show ?thesis by (intro conjI 1 2 3 4)
qed

subsection \<open>C2: the heuristic of \<^verbatim>\<open>is_hash\<close>\<close>

text \<open>
  C2, as amended. For every byte string \<open>s\<close>: (a) if \<open>s\<close> has more than 10 bytes and ends
  with \<^verbatim>\<open>=\<close>, \<^verbatim>\<open>is_hash(s)\<close> is true when \<^verbatim>\<open>b64decode(s)\<close> succeeds and false when it
  fails, the other branches not being tried; (b) otherwise it is true if \<open>s\<close> begins
  with at least 20 hexadecimal characters; (c) otherwise, \<open>s\<close> having at least 23 bytes,
  it is true if \<open>s\<close> begins with \<^verbatim>\<open>$\<close>, then 1 to 13 bytes other than the line feed, then
  \<^verbatim>\<open>$\<close>, then at least 20 bytes among letters, digits, \<^verbatim>\<open>:\<close>, \<^verbatim>\<open>/\<close> and \<^verbatim>\<open>.\<close>; otherwise
  it is false.
\<close>

theorem is_hash_heuristic:
  "is_hash X s =
     (if 10 < length s \<and> last s = CHR ''='' then b64decode X s \<noteq> None
      else (20 \<le> length (takeWhile is_hex_char s) \<or>
            (23 \<le> length s \<and>
             (\<exists>a b t. s = CHR ''$'' # a @ CHR ''$'' # b @ t \<and> 1 \<le> length a \<and> length a \<le> 13 \<and>
                CHR 0x0A \<notin> set a \<and> 20 \<le> length b \<and> list_all is_scheme_char b))))"
  by (rule is_hash_unfold)

theorem is_hash_heuristic_witness:
  "is_hash ascii_externals ''5f4dcc3b5aa765d61d8327deb882cf99'' \<and>
   20 \<le> length (takeWhile is_hex_char ''5f4dcc3b5aa765d61d8327deb882cf99'') \<and>
   is_hash ascii_externals ''$6$salt$abcdefghijklmnopqrstuvwxyz'' \<and>
   \<not> is_hash ascii_externals ''hello''"
proof -
  have 1: "20 \<le> length (takeWhile is_hex_char ''5f4dcc3b5aa765d61d8327deb882cf99'')"
    by (simp add: is_hex_char_def)
  have "''$6$salt$abcdefghijklmnopqrstuvwxyz'' =
      CHR ''$'' # ''6$salt'' @ CHR ''$'' # ''abcdefghijklmnopqrstuvwxyz'' @ [] \<and>
      1 \<le> length ''6$salt'' \<and> length ''6$salt'' \<le> 13 \<and> CHR 0x0A \<notin> set ''6$salt'' \<and>
      20 \<le> length ''abcdefghijklmnopqrstuvwxyz'' \<and> list_all is_scheme_char ''abcdefghijklmnopqrstuvwxyz''"
    by (simp add: is_scheme_char_def)
  then have 2: "\<exists>a b t. ''$6$salt$abcdefghijklmnopqrstuvwxyz'' = CHR ''$'' # a @ CHR ''$'' # b @ t \<and>
      1 \<le> length a \<and> length a \<le> 13 \<and> CHR 0x0A \<notin> set a \<and> 20 \<le> length b \<and>
      list_all is_scheme_char b"
    by blast
  have 3: "is_hash ascii_externals ''5f4dcc3b5aa765d61d8327deb882cf99''"
    using is_hash_heuristic [of ascii_externals "''5f4dcc3b5aa765d61d8327deb882cf99''"] 1 by simp
  have 4: "is_hash ascii_externals ''$6$salt$abcdefghijklmnopqrstuvwxyz''"
    using is_hash_heuristic [of ascii_externals "''$6$salt$abcdefghijklmnopqrstuvwxyz''"] 2 by simp
  have 5: "\<not> is_hash ascii_externals ''hello''"
    using is_hash_heuristic [of ascii_externals "''hello''"] by (simp add: is_hex_char_def)
  from 1 3 4 5 show ?thesis by blast
qed

text \<open>
  C2 as stated, with 20 hexadecimal characters anywhere in \<open>s\<close>, fails:
  \<^verbatim>\<open>pattern.match\<close> looks at the beginning of \<open>s\<close> only, and \<^verbatim>\<open>x\<close> followed by 20
  times \<^verbatim>\<open>a\<close> is not a hash.
\<close>

theorem hex_run_not_at_start:
  "contains_hex_run ''xaaaaaaaaaaaaaaaaaaaa'' \<and>
   last ''xaaaaaaaaaaaaaaaaaaaa'' \<noteq> CHR ''='' \<and>
   \<not> is_hash ascii_externals ''xaaaaaaaaaaaaaaaaaaaa''"
proof -
  have 1: "contains_hex_run ''xaaaaaaaaaaaaaaaaaaaa''"
    by (simp add: is_hex_char_def)
  have 2: "last ''xaaaaaaaaaaaaaaaaaaaa'' \<noteq> CHR ''=''" by simp
  have 3: "\<not> is_hash ascii_externals ''xaaaaaaaaaaaaaaaaaaaa''"
    by (rule is_hash_not) (simp_all add: is_hex_char_def)
  from 1 2 3 show ?thesis by blast
qed

subsection \<open>C3: from a record to its document and back\<close>

text \<open>
  C3, as amended. For every record whose email satisfies \<^verbatim>\<open>is_email\<close> and holds only
  bytes of \<open>valid_email_chars\<close> (so it has one \<^verbatim>\<open>@\<close> and no line feed at its end), and
  for a codec that is UTF-8 on ASCII, \<^verbatim>\<open>from_document\<close> applied to the document of the
  record returns a record with the same email: the email is rebuilt as the stored
  local part, \<^verbatim>\<open>@\<close>, and the reversed domain chunk of the identifier, and the
  constructor keeps it.
\<close>

theorem roundtrip_email:
  assumes "ascii_codec X" and "is_email (email r)" and "set (email r) \<subseteq> set valid_email_chars"
  shows "\<exists>r'. from_document X (document X r) = Inr r' \<and> email r' = email r"
proof -
  from rebuilt_email [OF assms] obtain i where i: "document X r ''e'' = Some i"
    and enc: "str_encode X (i @ [64] @ rev (hd (split_on 124 (to_object_id X r)))) = Some (email r)"
    by blast
  have ce: "clean_encoding X (email r) = email r"
    using assms(3) valid_email_char_ascii(1) by (intro ascii_codecD(2) [OF assms(1)]) blast
  have "from_document X (document X r) =
      Account X (email r) (if_key_exists X (document X r) ''u'') (if_key_exists X (document X r) ''p'')
        (if_key_exists X (document X r) ''h'') (if_key_exists X (document X r) ''m'') False"
    using enc by (simp add: from_document_def i document_lookup(1))
  then show ?thesis
    using Account_valid_email [OF assms(2,3) ce] by simp
qed

theorem roundtrip_email_witness:
  "ascii_codec ascii_externals \<and> is_email ''a@b.com'' \<and>
   set ''a@b.com'' \<subseteq> set valid_email_chars \<and>
   Account ascii_externals ''a@b.com'' [] ''hunter2'' [] [] False =
     Inr \<lparr>email = ''a@b.com'', username = [], password = ''hunter2'', hash = [], misc = []\<rparr> \<and>
   (\<exists>r'. from_document ascii_externals (document ascii_externals
        \<lparr>email = ''a@b.com'', username = [], password = ''hunter2'', hash = [], misc = []\<rparr>) = Inr r' \<and>
      email r' = ''a@b.com'')"
proof -
  let ?r = "\<lparr>email = ''a@b.com'', username = [], password = ''hunter2'', hash = [], misc = []\<rparr>"
  have ev: "Account ascii_externals ''a@b.com'' [] ''hunter2'' [] [] False = Inr ?r"
    by (simp add: account_eval is_email_example is_hash_short)
  have 1: "is_email (email ?r)" by (simp add: is_email_example)
  have 2: "set (email ?r) \<subseteq> set valid_email_chars" by (simp add: valid_email_chars_def)
  from roundtrip_email [OF ascii_codec_ascii_externals 1 2]
  have rt: "\<exists>r'. from_document ascii_externals (document ascii_externals ?r) = Inr r' \<and>
      email r' = ''a@b.com''" by simp
  show ?thesis
    by (rule conjI ascii_codec_ascii_externals is_email_example valid_chars_example ev rt)+
qed

text \<open>
  C3 as stated, for every record, fails: the record built from the email
  \<^verbatim>\<open>b'abc'\<close>, the username \<^verbatim>\<open>b'bob'\<close> and the password \<^verbatim>\<open>b'pw'\<close> keeps the email
  \<^verbatim>\<open>b'abc'\<close>, and the record read back from its document has the email \<^verbatim>\<open>b'abc@'\<close>.
\<close>

theorem roundtrip_loses_email_without_at:
  "Account ascii_externals ''abc'' ''bob'' ''pw'' [] [] False =
     Inr \<lparr>email = ''abc'', username = ''bob'', password = ''pw'', hash = [], misc = []\<rparr> \<and>
   from_document ascii_externals (document ascii_externals
       \<lparr>email = ''abc'', username = ''bob'', password = ''pw'', hash = [], misc = []\<rparr>) =
     Inr \<lparr>email = ''abc@'', username = ''bob'', password = ''pw'', hash = [], misc = []\<rparr> \<and>
   ''abc@'' \<noteq> ''abc''"
proof -
  let ?r = "\<lparr>email = ''abc'', username = ''bob'', password = ''pw'', hash = [], misc = []\<rparr>"
  have 1: "Account ascii_externals ''abc'' ''bob'' ''pw'' [] [] False = Inr ?r"
    by (simp add: account_eval not_is_email_no_dot is_hash_short)
  have sp: "split_email ?r = (''abc'', [])"
    by (simp add: split_email_eq)
  have id: "hd (split_on 124 (to_object_id ascii_externals ?r)) = []"
    by (simp add: hd_split_on to_object_id_def sp ascii_externals_def)
  have doc: "document ascii_externals ?r ''e'' = Some [97, 98, 99]"
    "document ascii_externals ?r ''_id'' = Some (to_object_id ascii_externals ?r)"
    "if_key_exists ascii_externals (document ascii_externals ?r) ''u'' = ''bob''"
    "if_key_exists ascii_externals (document ascii_externals ?r) ''p'' = ''pw''"
    "if_key_exists ascii_externals (document ascii_externals ?r) ''h'' = []"
    "if_key_exists ascii_externals (document ascii_externals ?r) ''m'' = []"
    by (simp_all add: document_def Let_def sp if_key_exists_def ascii_externals_def char_of_eq_iff)
  have enc: "str_encode ascii_externals ([97, 98, 99] @ [64] @ rev []) = Some ''abc@''"
    by (simp add: ascii_externals_def char_of_eq_iff)
  have 2: "from_document ascii_externals (document ascii_externals ?r) =
      Account ascii_externals ''abc@'' ''bob'' ''pw'' [] [] False"
    using enc by (simp add: from_document_def doc id)
  have 3: "Account ascii_externals ''abc@'' ''bob'' ''pw'' [] [] False =
      Inr \<lparr>email = ''abc@'', username = ''bob'', password = ''pw'', hash = [], misc = []\<rparr>"
    by (simp add: account_eval not_is_email_no_dot is_hash_short)
  have 4: "''abc@'' \<noteq> ''abc''" by simp
  show ?thesis
    unfolding 2 3 using 1 4 by (intro conjI) simp_all
qed

subsection \<open>C4: strict mode\<close>

text \<open>
  C4, as amended. The strict check is made on the email after filtering (trim,
  lower-case, drop the bytes outside \<open>valid_email_chars\<close>): whenever that filtered email
  is non-empty and fails \<^verbatim>\<open>is_email\<close>, the constructor called with \<^verbatim>\<open>strict=True\<close>
  raises \<^verbatim>\<open>AccountCreationError\<close>, whatever the codec and the other four arguments are.
\<close>

theorem strict_rejects_invalid_filtered_email:
  "filter_email e \<noteq> [] \<Longrightarrow> \<not> is_email (filter_email e) \<Longrightarrow>
     Account X e u p h m True = Inl AccountCreationError"
  by (simp add: Account_Inl)

theorem strict_rejects_invalid_filtered_email_witness:
  "filter_email ''bad'' \<noteq> [] \<and> \<not> is_email (filter_email ''bad'') \<and>
   Account ascii_externals ''bad'' ''bob'' ''pw'' [] [] True = Inl AccountCreationError"
proof -
  have 1: "filter_email ''bad'' \<noteq> []" by (simp add: filter_email_bad)
  have 2: "\<not> is_email (filter_email ''bad'')" by (simp add: filter_email_bad not_is_email_no_dot)
  from strict_rejects_invalid_filtered_email [OF 1 2] 1 2 show ?thesis by simp
qed

text \<open>
  C4 as stated, on the email argument itself, fails: \<^verbatim>\<open>b'!!!'\<close> is non-empty and
  is not an email, but the filter leaves nothing of it, so in strict mode the
  constructor goes on and builds a record from the username and the password.
\<close>

theorem strict_accepts_malformed_raw_email:
  "''!!!'' \<noteq> [] \<and> \<not> is_email ''!!!'' \<and>
   Account ascii_externals ''!!!'' ''bob'' ''pw'' [] [] True =
     Inr \<lparr>email = [], username = ''bob'', password = ''pw'', hash = [], misc = []\<rparr>"
  by (simp add: account_eval not_is_email_no_dot is_hash_short)

subsection \<open>C5: when the constructor raises\<close>

text \<open>
  C5, as amended. The constructor raises \<^verbatim>\<open>AccountCreationError\<close> exactly when either
  strict mode is set and the filtered email is non-empty and fails \<^verbatim>\<open>is_email\<close>, or the
  fields reached at line 104, after the reclassification steps, fail the gate; with
  \<^verbatim>\<open>strict=False\<close> that is exactly when the gate fails. It raises nothing else. Built from
  five empty arguments it always raises, and when it returns a record the fields at
  line 104 had a non-empty email, or a non-empty username and a non-empty password,
  hash or misc.
\<close>

theorem construction_fails_iff:
  "(Account X e u p h m strict = Inl AccountCreationError) =
     ((strict \<and> filter_email e \<noteq> [] \<and> \<not> is_email (filter_email e)) \<or>
      (\<exists>a. reclassified X e u p h m strict = Inr a \<and> \<not> gate a)) \<and>
   Account X e u p h m strict \<noteq> Inl UnboundLocalError \<and>
   Account X [] [] [] [] [] strict = Inl AccountCreationError \<and>
   (\<forall>r. Account X e u p h m strict = Inr r \<longrightarrow>
      (\<exists>a. reclassified X e u p h m strict = Inr a \<and>
         (email a \<noteq> [] \<or> (username a \<noteq> [] \<and> (password a \<noteq> [] \<or> hash a \<noteq> [] \<or> misc a \<noteq> [])))))"
proof (intro conjI allI impI)
  show "(Account X e u p h m strict = Inl AccountCreationError) =
     ((strict \<and> filter_email e \<noteq> [] \<and> \<not> is_email (filter_email e)) \<or>
      (\<exists>a. reclassified X e u p h m strict = Inr a \<and> \<not> gate a))"
    by (simp add: Account_Inl)
  show "Account X e u p h m strict \<noteq> Inl UnboundLocalError"
    by (simp add: Account_Inl)
  show "Account X [] [] [] [] [] strict = Inl AccountCreationError"
    by (rule Account_all_empty)
  fix r
  assume "Account X e u p h m strict = Inr r"
  then obtain a where "reclassified X e u p h m strict = Inr a" "gate a"
    by (auto simp: Account_Inr)
  then show "\<exists>a. reclassified X e u p h m strict = Inr a \<and>
         (email a \<noteq> [] \<or> (username a \<noteq> [] \<and> (password a \<noteq> [] \<or> hash a \<noteq> [] \<or> misc a \<noteq> [])))"
    by (auto simp: gate_def)
qed

theorem construction_fails_iff_witness:
  "reclassified ascii_externals [] ''bob'' [] [] [] False =
     Inr \<lparr>email = [], username = ''bob'', password = [], hash = [], misc = []\<rparr> \<and>
   \<not> gate \<lparr>email = [], username = ''bob'', password = [], hash = [], misc = []\<rparr> \<and>
   Account ascii_externals [] ''bob'' [] [] [] False = Inl AccountCreationError"
proof -
  have 1: "reclassified ascii_externals [] ''bob'' [] [] [] False =
     Inr \<lparr>email = [], username = ''bob'', password = [], hash = [], misc = []\<rparr>"
    by (simp add: account_eval not_is_email_no_dot)
  have 2: "\<not> gate \<lparr>email = [], username = ''bob'', password = [], hash = [], misc = []\<rparr>"
    by (simp add: gate_def)
  from 1 2 have "\<exists>a. reclassified ascii_externals [] ''bob'' [] [] [] False = Inr a \<and> \<not> gate a"
    by blast
  with construction_fails_iff [of ascii_externals "[]" "''bob''" "[]" "[]" "[]" False] 1 2
  show ?thesis by blast
qed

text \<open>
  C5 as stated fails in strict mode: with the email \<^verbatim>\<open>b'bad'\<close>, the username
  \<^verbatim>\<open>b'bob'\<close> and the password \<^verbatim>\<open>b'pw'\<close> the constructor raises although the fields
  satisfy the gate; with \<^verbatim>\<open>strict=False\<close> the same arguments give a record.
\<close>

theorem strict_failure_with_gate_satisfied:
  "Account ascii_externals ''bad'' ''bob'' ''pw'' [] [] True = Inl AccountCreationError \<and>
   gate (reclassify_misc (reclassify_hash ascii_externals [] (cleanup ''bad'' ''bob'' ''pw'' [] []))) \<and>
   Account ascii_externals ''bad'' ''bob'' ''pw'' [] [] False =
     Inr \<lparr>email = ''bad'', username = ''bob'', password = ''pw'', hash = [], misc = []\<rparr>"
  by (simp add: account_eval not_is_email_no_dot is_hash_short)

subsection \<open>C6: overlong passwords\<close>

text \<open>
  C6, as amended. For every input whose email is valid after the cleanup (the filtered
  email satisfies \<^verbatim>\<open>is_email\<close>, or it is empty and the cleaned username satisfies
  \<^verbatim>\<open>is_email\<close> and becomes the email), whose cleaned misc is empty and whose cleaned
  password has at least 100 bytes and is not one that the step before is to move to
  the hash field (the cleaned hash is non-empty, or \<^verbatim>\<open>is_hash\<close> fails on the cleaned
  password), the constructor returns a record whose misc is the cleaned password
  passed through \<^verbatim>\<open>clean_encoding\<close> and cut to its first 1000 bytes, and whose password
  is what \<^verbatim>\<open>clean_encoding\<close> makes of the empty string, cut to 128 bytes: the empty
  password when \<^verbatim>\<open>clean_encoding\<close> maps the empty string to itself.
\<close>

theorem overlong_password_to_misc:
  assumes "is_email (filter_email e) \<or>
             (filter_email e = [] \<and>
              is_email (translate_delete [CHR 0x27, CHR 0x5C] (strip_bytes whitespace u)))"
    and "strip_bytes crlf m = []"
    and "100 \<le> length (strip_bytes crlf p)"
    and "strip_bytes crlf h \<noteq> [] \<or> \<not> is_hash X (strip_bytes crlf p)"
  shows "\<exists>r. Account X e u p h m strict = Inr r \<and>
           password r = take 128 (clean_encoding X []) \<and>
           misc r = take 1000 (clean_encoding X (strip_bytes crlf p)) \<and>
           (clean_encoding X [] = [] \<longrightarrow> password r = [])"
proof -
  from overlong_password_general [OF assms, of strict]
  obtain a where a: "Account X e u p h m strict = Inr (truncate_fields X a)"
    and pa: "password a = []" and ma: "misc a = strip_bytes crlf p"
    by blast
  have "password (truncate_fields X a) = take 128 (clean_encoding X [])"
    and "misc (truncate_fields X a) = take 1000 (clean_encoding X (strip_bytes crlf p))"
    by (simp_all add: truncate_fields_def max_length_1_def max_length_2_def pa ma)
  with a show ?thesis by auto
qed

theorem overlong_password_to_misc_witness:
  "is_email (filter_email ''a@b.com'') \<and> strip_bytes crlf [] = [] \<and>
   100 \<le> length (strip_bytes crlf (replicate 100 CHR ''a'')) \<and>
   strip_bytes crlf ''abc'' \<noteq> [] \<and>
   clean_encoding ascii_externals [] = [] \<and>
   (\<exists>r. Account ascii_externals ''a@b.com'' [] (replicate 100 CHR ''a'') ''abc'' [] False = Inr r \<and>
        password r = [] \<and> misc r = replicate 100 CHR ''a'')"
proof -
  have 1: "is_email (filter_email ''a@b.com'')"
    by (simp add: filter_email_example is_email_example)
  then have v: "is_email (filter_email ''a@b.com'') \<or>
             (filter_email ''a@b.com'' = [] \<and>
              is_email (translate_delete [CHR 0x27, CHR 0x5C] (strip_bytes whitespace [])))"
    by (rule disjI1)
  have 2: "strip_bytes crlf [] = []" by (simp add: strip_bytes_Nil)
  have s: "strip_bytes crlf (replicate 100 CHR ''a'') = replicate 100 CHR ''a''"
    by (simp add: strip_bytes_replicate crlf_def)
  have 3: "100 \<le> length (strip_bytes crlf (replicate 100 CHR ''a''))" by (simp add: s)
  have 4: "strip_bytes crlf ''abc'' \<noteq> []" by (simp add: strip_bytes_def crlf_def)
  then have h4: "strip_bytes crlf ''abc'' \<noteq> [] \<or>
      \<not> is_hash ascii_externals (strip_bytes crlf (replicate 100 CHR ''a''))"
    by (rule disjI1)
  have 5: "clean_encoding ascii_externals [] = []"
    and c: "clean_encoding ascii_externals (replicate 100 CHR ''a'') = replicate 100 CHR ''a''"
    by (simp_all add: ascii_externals_def)
  from overlong_password_to_misc [OF v 2 3 h4, of False]
  have 6: "\<exists>r. Account ascii_externals ''a@b.com'' [] (replicate 100 CHR ''a'') ''abc'' [] False = Inr r \<and>
        password r = [] \<and> misc r = replicate 100 CHR ''a''"
    unfolding s c 5 by auto
  show ?thesis by (intro conjI 1 2 3 4 5 6)
qed

text \<open>
  C6 as stated fails on two inputs with the email \<^verbatim>\<open>b'a@b.com'\<close> and an empty
  misc: a password of 100 bytes \<^verbatim>\<open>a\<close> is a hash and goes to the hash field, misc
  staying empty; a password of 1001 bytes \<^verbatim>\<open>x\<close> goes to misc, which keeps only 1000
  of them.
\<close>

theorem overlong_password_not_in_misc:
  "Account ascii_externals ''a@b.com'' [] (replicate 100 CHR ''a'') [] [] False =
     Inr \<lparr>email = ''a@b.com'', username = [], password = [], hash = replicate 100 CHR ''a'', misc = []\<rparr> \<and>
   Account ascii_externals ''a@b.com'' [] (replicate 1001 CHR ''x'') [] [] False =
     Inr \<lparr>email = ''a@b.com'', username = [], password = [], hash = [],
          misc = replicate 1000 CHR ''x''\<rparr> \<and>
   replicate 1000 CHR ''x'' \<noteq> replicate 1001 CHR ''x''"
proof -
  have a: "strip_bytes crlf (replicate 100 CHR ''a'') = replicate 100 CHR ''a''"
    and x: "strip_bytes crlf (replicate 1001 CHR ''x'') = replicate 1001 CHR ''x''"
    by (simp_all add: strip_bytes_replicate crlf_def)
  have e: "is_email (filter_email ''a@b.com'')"
    by (simp add: filter_email_example is_email_example)
  have "Account ascii_externals ''a@b.com'' [] (replicate 100 CHR ''a'') [] [] False =
      Inr (truncate_fields ascii_externals
        ((cleanup ''a@b.com'' [] (replicate 100 CHR ''a'') [] [])\<lparr>password := [],
           hash := strip_bytes crlf (replicate 100 CHR ''a'')\<rparr>))"
    by (rule hash_password_moved [OF e]) (simp_all add: a is_hash_100_hex)
  then have 1: "Account ascii_externals ''a@b.com'' [] (replicate 100 CHR ''a'') [] [] False =
     Inr \<lparr>email = ''a@b.com'', username = [], password = [], hash = replicate 100 CHR ''a'', misc = []\<rparr>"
    by (simp add: truncate_fields_def cleanup_def filter_email_example a strip_bytes_Nil
        translate_delete_def last_n_def max_length_1_def max_length_2_def ascii_externals_def)
  have "Account ascii_externals ''a@b.com'' [] (replicate 1001 CHR ''x'') [] [] False =
      Inr (truncate_fields ascii_externals
        ((cleanup ''a@b.com'' [] (replicate 1001 CHR ''x'') [] [])\<lparr>password := [],
           misc := strip_bytes crlf (replicate 1001 CHR ''x'')\<rparr>))"
    by (rule overlong_password_moved [OF e]) (simp_all add: x strip_bytes_Nil not_is_hash_xs)
  then have 2: "Account ascii_externals ''a@b.com'' [] (replicate 1001 CHR ''x'') [] [] False =
     Inr \<lparr>email = ''a@b.com'', username = [], password = [], hash = [],
          misc = replicate 1000 CHR ''x''\<rparr>"
    by (simp add: truncate_fields_def cleanup_def filter_email_example x strip_bytes_Nil
        translate_delete_def last_n_def max_length_1_def max_length_2_def ascii_externals_def)
  have 3: "replicate 1000 CHR ''x'' \<noteq> replicate 1001 CHR ''x''"
    by (simp add: replicate_eq_replicate)
  from 1 2 3 show ?thesis by blast
qed

subsection \<open>C7: the password-to-hash step and the cleaned hash\<close>

text \<open>
  C7. The claim says that the password is moved to the hash field whenever the
  cleaned hash is empty, the cleaned password is non-empty and \<^verbatim>\<open>is_hash\<close> holds of
  it. Line 93 tests the argument \<^verbatim>\<open>_hash\<close>, not the cleaned \<^verbatim>\<open>self.hash\<close>: with the
  \<^verbatim>\<open>_hash\<close> argument a single line feed, the cleaned hash is empty and the password
  is a hash, and the record built keeps the password where it was and has an empty
  hash.
\<close>

theorem crlf_hash_argument_blocks_reclassification:
  "strip_bytes crlf [CHR 0x0A] = [] \<and>
   is_hash ascii_externals ''5f4dcc3b5aa765d61d8327deb882cf99'' \<and>
   Account ascii_externals ''a@b.com'' [] ''5f4dcc3b5aa765d61d8327deb882cf99'' [CHR 0x0A] [] False =
     Inr \<lparr>email = ''a@b.com'', username = [], password = ''5f4dcc3b5aa765d61d8327deb882cf99'',
          hash = [], misc = []\<rparr>"
  by (simp add: account_eval is_email_example is_hash_md5)

theorem crlf_hash_argument_blocks_reclassification_witness:
  "Account ascii_externals ''a@b.com'' [] ''5f4dcc3b5aa765d61d8327deb882cf99'' [CHR 0x0A] [] False \<noteq>
     Inr \<lparr>email = ''a@b.com'', username = [], password = [],
          hash = ''5f4dcc3b5aa765d61d8327deb882cf99'', misc = []\<rparr>"
  using crlf_hash_argument_blocks_reclassification by simp

subsection \<open>C8: equality of records\<close>

text \<open>
  C8, as amended. Two records whose five fields match byte for byte are equal and have
  the same hash, and so are two records whose NUL-joined byte strings are the same,
  since \<^verbatim>\<open>__eq__\<close> compares the built-in hashes of those strings. Conversely, when the
  email, username, password and hash of both records hold no NUL byte and the built-in
  hash does not collide on the two NUL-joined strings, the records are equal if and
  only if all five fields match.
\<close>

theorem equality_of_records:
  "(email r1 = email r2 \<and> username r1 = username r2 \<and> password r1 = password r2 \<and>
      hash r1 = hash r2 \<and> misc r1 = misc r2 \<longrightarrow>
        account_eq X r1 r2 \<and> account_hash X r1 = account_hash X r2) \<and>
   (account_bytes r1 = account_bytes r2 \<longrightarrow> account_eq X r1 r2) \<and>
   (CHR 0x00 \<notin> set (email r1 @ username r1 @ password r1 @ hash r1) \<and>
    CHR 0x00 \<notin> set (email r2 @ username r2 @ password r2 @ hash r2) \<and>
    (builtin_hash X (account_bytes r1) = builtin_hash X (account_bytes r2) \<longrightarrow>
       account_bytes r1 = account_bytes r2) \<longrightarrow>
      account_eq X r1 r2 =
        (email r1 = email r2 \<and> username r1 = username r2 \<and> password r1 = password r2 \<and>
         hash r1 = hash r2 \<and> misc r1 = misc r2))"
proof (intro conjI impI)
  assume "email r1 = email r2 \<and> username r1 = username r2 \<and> password r1 = password r2 \<and>
      hash r1 = hash r2 \<and> misc r1 = misc r2"
  then have "account_bytes r1 = account_bytes r2" by (simp add: account_bytes_def)
  then show "account_eq X r1 r2" and "account_hash X r1 = account_hash X r2"
    by (simp_all add: account_eq_iff account_hash_def)
next
  assume "account_bytes r1 = account_bytes r2"
  then show "account_eq X r1 r2" by (simp add: account_eq_iff)
next
  assume h: "CHR 0x00 \<notin> set (email r1 @ username r1 @ password r1 @ hash r1) \<and>
    CHR 0x00 \<notin> set (email r2 @ username r2 @ password r2 @ hash r2) \<and>
    (builtin_hash X (account_bytes r1) = builtin_hash X (account_bytes r2) \<longrightarrow>
       account_bytes r1 = account_bytes r2)"
  then have "account_eq X r1 r2 = (account_bytes r1 = account_bytes r2)"
    by (auto simp: account_eq_iff)
  also have "\<dots> = (email r1 = email r2 \<and> username r1 = username r2 \<and> password r1 = password r2 \<and>
         hash r1 = hash r2 \<and> misc r1 = misc r2)"
    using h by (intro account_bytes_inject) simp_all
  finally show "account_eq X r1 r2 =
        (email r1 = email r2 \<and> username r1 = username r2 \<and> password r1 = password r2 \<and>
         hash r1 = hash r2 \<and> misc r1 = misc r2)" .
qed

theorem equality_of_records_witness:
  "CHR 0x00 \<notin> set (''a@b.com'' @ ''bob'' @ ''pw'' @ []) \<and>
   CHR 0x00 \<notin> set (''a@b.com'' @ ''rob'' @ ''pw'' @ []) \<and>
   \<not> account_eq ascii_externals
      \<lparr>email = ''a@b.com'', username = ''bob'', password = ''pw'', hash = [], misc = []\<rparr>
      \<lparr>email = ''a@b.com'', username = ''rob'', password = ''pw'', hash = [], misc = []\<rparr> \<and>
   account_eq ascii_externals
      \<lparr>email = ''a@b.com'', username = ''bob'', password = ''pw'', hash = [], misc = []\<rparr>
      \<lparr>email = ''a@b.com'', username = ''bob'', password = ''pw'', hash = [], misc = []\<rparr>"
proof -
  let ?r1 = "\<lparr>email = ''a@b.com'', username = ''bob'', password = ''pw'', hash = [], misc = []\<rparr>"
  let ?r2 = "\<lparr>email = ''a@b.com'', username = ''rob'', password = ''pw'', hash = [], misc = []\<rparr>"
  have nocoll: "builtin_hash ascii_externals (account_bytes ?r1) =
      builtin_hash ascii_externals (account_bytes ?r2) \<longrightarrow> account_bytes ?r1 = account_bytes ?r2"
    by (simp add: ascii_externals_def)
  have n1: "CHR 0x00 \<notin> set (''a@b.com'' @ ''bob'' @ ''pw'' @ [])"
    and n2: "CHR 0x00 \<notin> set (''a@b.com'' @ ''rob'' @ ''pw'' @ [])" by simp_all
  from equality_of_records [of ?r1 ?r2 ascii_externals] nocoll n1 n2
  have "\<not> account_eq ascii_externals ?r1 ?r2" by simp
  moreover from equality_of_records [of ?r1 ?r1 ascii_externals]
  have "account_eq ascii_externals ?r1 ?r1" by simp
  ultimately show ?thesis using n1 n2 by blast
qed

text \<open>
  C8 as stated fails for fields that hold the separator: the records built from
  the username \<^verbatim>\<open>b'a\x00b'\<close> with the password \<^verbatim>\<open>b'c'\<close>, and from the username \<^verbatim>\<open>b'a'\<close>
  with the password \<^verbatim>\<open>b'b\x00c'\<close>, have the same NUL-joined byte string and compare
  equal, with different usernames.
\<close>

theorem equal_records_with_different_fields:
  "Account ascii_externals [] [CHR ''a'', CHR 0x00, CHR ''b''] ''c'' [] [] False =
     Inr \<lparr>email = [], username = [CHR ''a'', CHR 0x00, CHR ''b''], password = ''c'', hash = [], misc = []\<rparr> \<and>
   Account ascii_externals [] ''a'' [CHR ''b'', CHR 0x00, CHR ''c''] [] [] False =
     Inr \<lparr>email = [], username = ''a'', password = [CHR ''b'', CHR 0x00, CHR ''c''], hash = [], misc = []\<rparr> \<and>
   account_eq ascii_externals
     \<lparr>email = [], username = [CHR ''a'', CHR 0x00, CHR ''b''], password = ''c'', hash = [], misc = []\<rparr>
     \<lparr>email = [], username = ''a'', password = [CHR ''b'', CHR 0x00, CHR ''c''], hash = [], misc = []\<rparr> \<and>
   [CHR ''a'', CHR 0x00, CHR ''b''] \<noteq> ''a''"
  by (simp add: account_eval not_is_email_no_dot is_hash_short account_eq_iff account_bytes_def)

subsection \<open>C9: bounds and gate of a constructed record\<close>




subsection \<open>C10: short passwords are never taken for hashes\<close>

text \<open>
  C10. For every byte string \<open>s\<close> of at most 10 bytes \<^verbatim>\<open>is_hash(s)\<close> is false, whatever
  \<^verbatim>\<open>b64decode\<close> does; so a constructor called with a password of at most 10 bytes never
  moves it into the hash field: in the record built, the hash is the cleaned and
  truncated \<^verbatim>\<open>_hash\<close> argument and the password is the cleaned and truncated
  password argument.
\<close>

theorem short_password_not_reclassified:
  "length s \<le> 10 \<Longrightarrow>
     \<not> is_hash X s \<and>
     (\<forall>e u h m strict r. Account X e u s h m strict = Inr r \<longrightarrow>
        hash r = take max_length_2 (clean_encoding X (strip_bytes crlf h)) \<and>
        password r = take max_length_1 (clean_encoding X (strip_bytes crlf s)))"
  using is_hash_short [of s X] short_password_kept [of s X] by blast

theorem short_password_not_reclassified_witness:
  "length ''hunter2'' \<le> 10 \<and> \<not> is_hash ascii_externals ''hunter2'' \<and>
   Account ascii_externals ''a@b.com'' [] ''hunter2'' [] [] False =
     Inr \<lparr>email = ''a@b.com'', username = [], password = ''hunter2'', hash = [], misc = []\<rparr> \<and>
   hash \<lparr>email = ''a@b.com'', username = [], password = ''hunter2'', hash = [], misc = []\<rparr> =
     take max_length_2 (clean_encoding ascii_externals (strip_bytes crlf []))"
proof -
  have len: "length ''hunter2'' \<le> 10" by simp
  have ev: "Account ascii_externals ''a@b.com'' [] ''hunter2'' [] [] False =
     Inr \<lparr>email = ''a@b.com'', username = [], password = ''hunter2'', hash = [], misc = []\<rparr>"
    by (simp add: account_eval is_email_example is_hash_short)
  from short_password_not_reclassified [OF len, of ascii_externals] ev len
  show ?thesis by blast
qed

end
